theory Spec2Isabelle
  imports Main "HOL-Library.AList"
begin

section \<open>The Deepr query parser (packages/runtime/src/parser.js)\<close>

subsection \<open>Values of the host language\<close>

text \<open>
  A raw query is an arbitrary JavaScript value. An object is represented by what
  \<^verbatim>\<open>Object.entries\<close> returns for it: the list of its own enumerable properties, in
  enumeration order (the keys of one object are pairwise distinct). An array is the list
  of its elements, without holes. Numbers are never inspected by the parser other than
  through \<^verbatim>\<open>typeof\<close>, so an integer payload stands for them. Strings are lists of
  characters.
\<close>

datatype jsvalue =
    JUndefined
  | JNull
  | JBool bool
  | JNumber int
  | JString string
  | JArray "jsvalue list"
  | JObject "(string \<times> jsvalue) list"

text \<open>
  The errors thrown by the parser, named as the specification names them. The messages of
  the source are:
  \<^item> \<open>MissingQuery\<close>: \<^verbatim>\<open>'query' parameter is missing\<close>
  \<^item> \<open>InvalidArraySyntax\<close>: \<^verbatim>\<open>An array should contain exactly one item\<close>
  \<^item> \<open>InvalidQueryShape q\<close>: \<^verbatim>\<open>Invalid query found: ${JSON.stringify(query)}\<close>
  \<^item> \<open>InvalidKeySyntax k\<close>: \<^verbatim>\<open>Invalid key found: '${key}'\<close>
  \<^item> \<open>MultipleEmptyTargets\<close>: \<^verbatim>\<open>Multiple empty targets found at the same level\<close>
  \<^item> \<open>ConflictingTargets\<close>: \<^verbatim>\<open>Empty and non-empty targets found at the same level\<close>
\<close>

datatype error =
    MissingQuery
  | InvalidArraySyntax
  | InvalidQueryShape jsvalue
  | InvalidKeySyntax string
  | MultipleEmptyTargets
  | ConflictingTargets

text \<open>
  The expression object built by the parser. \<open>isOptional\<close> and \<open>useCollectionElements\<close>
  are \<open>True\<close> where the source stores \<^verbatim>\<open>true\<close> and \<open>False\<close> where the property is
  \<^verbatim>\<open>undefined\<close> or absent (the source never stores \<^verbatim>\<open>false\<close>). \<open>params\<close>,
  \<open>nextExpression\<close> and \<open>nestedExpressions\<close> are \<open>None\<close> while the property has not
  been assigned. The \<open>nestedExpressions\<close> object is represented by the list of its own
  properties in insertion order (the host enumerates keys that are array indices before
  the others; nothing below depends on the order).
\<close>

datatype expression =
  Expression
    (sourceKey: string)
    (isOptional: bool)
    (useCollectionElements: bool)
    (params: "jsvalue option")
    (nextExpression: "expression option")
    (nestedExpressions: "(string \<times> expression) list option")

subsection \<open>Keys\<close>

text \<open>
  \<^verbatim>\<open>key.split('=>')\<close>: the pieces of the key between the non-overlapping occurrences of
  the separator, scanned from the left. The empty string splits into one empty piece.
\<close>

fun split_arrow :: "string \<Rightarrow> string list" where
  "split_arrow [] = [[]]"
| "split_arrow [c] = [[c]]"
| "split_arrow (c # d # cs) =
     (if c = CHR ''='' \<and> d = CHR ''>'' then [] # split_arrow cs
      else (case split_arrow (d # cs) of
              [] \<Rightarrow> [[c]]
            | p # ps \<Rightarrow> (c # p) # ps))"

text \<open>
  \<^verbatim>\<open>parseSourceKey\<close>: a trailing question mark is removed and recorded.
\<close>

definition parseSourceKey :: "string \<Rightarrow> string \<times> bool" where
  "parseSourceKey raw =
     (if raw \<noteq> [] \<and> last raw = CHR ''?''
      then (butlast raw, True)
      else (raw, False))"

text \<open>
  \<^verbatim>\<open>parseKey\<close> returns the triple \<open>(sourceKey, targetKey, isOptional)\<close>.
\<close>

definition parseKey :: "string \<Rightarrow> error + (string \<times> string \<times> bool)" where
  "parseKey key =
     (case split_arrow key of
        [p] \<Rightarrow> (let (src, opt) = parseSourceKey p
                in Inr (src, src, opt))
      | [p, q] \<Rightarrow> (let (src, opt) = parseSourceKey p
                   in Inr (src, q, opt))
      | _ \<Rightarrow> Inl (InvalidKeySyntax key))"

text \<open>
  A matcher of the configuration is a string, compared for equality, or a pattern, of
  which only the result of \<^verbatim>\<open>pattern.test(key)\<close> matters: a pattern without the
  global or sticky flag, whose test depends on the key alone. Patterns with one of these
  flags are the subject of the subsection on patterns that keep state.
\<close>

datatype matcher = MString string | MPattern "string \<Rightarrow> bool"

fun matches :: "string \<Rightarrow> matcher \<Rightarrow> bool" where
  "matches key (MString s) = (s = key)"
| "matches key (MPattern p) = p key"

definition testKey :: "string \<Rightarrow> matcher list \<Rightarrow> bool" where
  "testKey key patterns = list_ex (matches key) patterns"

subsection \<open>The denylist of built-in keys\<close>

text \<open>
  \<^verbatim>\<open>_addKeys(array, object)\<close> walks the prototype chain of \<open>object\<close>. The host's
  reflection is a parameter of the model: a chain is the list of the results of
  \<^verbatim>\<open>Object.getOwnPropertyNames\<close> for the object, its prototype, the prototype of
  that, and so on up to the last object before \<^verbatim>\<open>null\<close> (prototype chains are finite
  and acyclic, so the \<^verbatim>\<open>while\<close> loop ends). \<open>addOwn\<close> is the inner \<^verbatim>\<open>for\<close> loop.
\<close>

fun addOwn :: "string list \<Rightarrow> string list \<Rightarrow> string list" where
  "addOwn array [] = array"
| "addOwn array (key # keys) =
     addOwn (if \<not> (key = ''name'' \<or> key = ''length'' \<or> key \<in> set array)
             then array @ [key] else array) keys"

fun addKeys :: "string list \<Rightarrow> string list list \<Rightarrow> string list" where
  "addKeys array [] = array"
| "addKeys array (names # chain) = addKeys (addOwn array names) chain"

text \<open>
  The three objects \<^verbatim>\<open>getBuiltInKeys\<close> inspects: an instance of an empty class, a
  function expression and the class itself.
\<close>

record host =
  objChain :: "string list list"
  funcChain :: "string list list"
  classChain :: "string list list"

text \<open>
  \<^verbatim>\<open>getBuiltInKeys\<close> with its module-level cache \<^verbatim>\<open>_builtInKeys\<close> passed
  explicitly: the list is computed when the cache is still unset and returned unchanged
  afterwards (an array, even an empty one, is truthy).
\<close>

definition getBuiltInKeys :: "host \<Rightarrow> string list option \<Rightarrow> string list \<times> string list option" where
  "getBuiltInKeys h cache =
     (case cache of
        None \<Rightarrow>
          (let a0 = [];
               a1 = addKeys a0 (objChain h);
               a2 = addKeys a1 (funcChain h);
               a3 = addKeys a2 (classChain h)
           in (a3, Some a3))
      | Some ks \<Rightarrow> (ks, Some ks))"

text \<open>
  The list every call of \<^verbatim>\<open>getBuiltInKeys()\<close> returns in a process whose host is
  \<open>h\<close>. The parser below takes this list as its first argument.
\<close>

definition builtInKeys :: "host \<Rightarrow> string list" where
  "builtInKeys h = fst (getBuiltInKeys h None)"

text \<open>
  The own property names that the ECMAScript standard library gives the three chains, for
  code in strict mode (a module): the instance has none, a function and a class have
  \<^verbatim>\<open>length\<close>, \<^verbatim>\<open>name\<close> and \<^verbatim>\<open>prototype\<close>, and the chains end in
  \<^verbatim>\<open>Function.prototype\<close> and \<^verbatim>\<open>Object.prototype\<close>. Used for concrete examples
  only.
\<close>

definition objectPrototypeNames :: "string list" where
  "objectPrototypeNames =
     [''constructor'', ''__defineGetter__'', ''__defineSetter__'', ''hasOwnProperty'',
      ''__lookupGetter__'', ''__lookupSetter__'', ''isPrototypeOf'',
      ''propertyIsEnumerable'', ''toString'', ''valueOf'', ''__proto__'',
      ''toLocaleString'']"

definition functionPrototypeNames :: "string list" where
  "functionPrototypeNames =
     [''length'', ''name'', ''arguments'', ''caller'', ''constructor'', ''apply'', ''bind'',
      ''call'', ''toString'']"

definition standardHost :: host where
  "standardHost =
     \<lparr> objChain = [[], [''constructor''], objectPrototypeNames],
       funcChain = [[''length'', ''name'', ''prototype''], functionPrototypeNames,
                    objectPrototypeNames],
       classChain = [[''length'', ''name'', ''prototype''], functionPrototypeNames,
                     objectPrototypeNames] \<rparr>"

subsection \<open>The recursive parser\<close>

text \<open>
  The normalised configuration that \<^verbatim>\<open>_parseQuery\<close> receives.
\<close>

record config =
  ignoreKeys :: "matcher list"
  acceptKeys :: "matcher list"
  ignoreBuiltInKeys :: bool

text \<open>
  The two \<^verbatim>\<open>continue\<close> tests of the loop body, in the order of the source.
\<close>

definition builtInFiltered :: "string list \<Rightarrow> config \<Rightarrow> string \<Rightarrow> bool" where
  "builtInFiltered bk cfg src = (ignoreBuiltInKeys cfg \<and> src \<in> set bk)"

definition ignored :: "config \<Rightarrow> string \<Rightarrow> bool" where
  "ignored cfg src = (testKey src (ignoreKeys cfg) \<and> \<not> testKey src (acceptKeys cfg))"

text \<open>
  \<^verbatim>\<open>nestedExpressions[targetKey] = subexpression\<close> on an ordinary object. The key
  \<^verbatim>\<open>__proto__\<close> is an accessor inherited from \<^verbatim>\<open>Object.prototype\<close>: assigning an
  object to it replaces the prototype of \<^verbatim>\<open>nestedExpressions\<close> and creates no own
  property. Every other key creates the own property or overwrites it in place.
\<close>

definition setProperty :: "string \<Rightarrow> 'a \<Rightarrow> (string \<times> 'a) list \<Rightarrow> (string \<times> 'a) list" where
  "setProperty k v props = (if k = ''__proto__'' then props else AList.update k v props)"

text \<open>
  The variables the loop over the entries changes: the expression under construction
  (for \<^verbatim>\<open>expression.params\<close>) and the two locals.
\<close>

record loopState =
  expr :: expression
  nested :: "(string \<times> expression) list option"
  nextE :: "expression option"

definition setParams :: "jsvalue \<Rightarrow> expression \<Rightarrow> expression" where
  "setParams v e =
     Expression (sourceKey e) (isOptional e) (useCollectionElements e) (Some v)
       (nextExpression e) (nestedExpressions e)"

text \<open>
  \<^verbatim>\<open>Object.entries\<close> of an array: its elements under their decimal indices.
\<close>

fun decimal :: "nat \<Rightarrow> string" where
  "decimal n =
     (if n < 10 then [''0123456789'' ! n]
      else decimal (n div 10) @ [''0123456789'' ! (n mod 10)])"

definition arrayEntries :: "jsvalue list \<Rightarrow> (string \<times> jsvalue) list" where
  "arrayEntries xs = zip (map decimal [0..<length xs]) xs"

definition setNext :: "expression \<Rightarrow> expression \<Rightarrow> expression" where
  "setNext nx e =
     Expression (sourceKey e) (isOptional e) (useCollectionElements e) (params e)
       (Some nx) (nestedExpressions e)"

definition setNested :: "(string \<times> expression) list \<Rightarrow> expression \<Rightarrow> expression" where
  "setNested ns e =
     Expression (sourceKey e) (isOptional e) (useCollectionElements e) (params e)
       (nextExpression e) (Some ns)"

text \<open>
  The end of \<^verbatim>\<open>_parseQuery\<close>, after the loop: the conflict test and the two
  assignments to the expression.
\<close>

definition finishLevel :: "loopState \<Rightarrow> error + expression" where
  "finishLevel st =
     (case (case nextE st of
              None \<Rightarrow> Inr (expr st)
            | Some nx \<Rightarrow>
                (if nested st \<noteq> None then Inl ConflictingTargets
                 else Inr (setNext nx (expr st)))) of
        Inl err \<Rightarrow> Inl err
      | Inr e \<Rightarrow>
          (case nested st of
             None \<Rightarrow> Inr e
           | Some ns \<Rightarrow> Inr (setNested ns e)))"

definition startLevel :: "expression \<Rightarrow> loopState" where
  "startLevel e = \<lparr> expr = e, nested = None, nextE = None \<rparr>"

text \<open>
  Sizes of the entry lists, for the termination of the parser.
\<close>

lemma size_arrayEntries_aux:
  "length ks = length xs \<Longrightarrow>
   size_list (\<lambda>p. size (snd p)) (zip ks xs) = size_list size (xs :: jsvalue list)"
  by (induction ks xs rule: list_induct2) auto

lemma size_arrayEntries:
  "size_list (\<lambda>p. size (snd p)) (arrayEntries xs) = size_list size xs"
  unfolding arrayEntries_def by (rule size_arrayEntries_aux) simp

lemma size_objectEntries:
  "size_list (\<lambda>p. size (snd p)) (kvs :: (string \<times> jsvalue) list)
   \<le> size_list (size_prod (\<lambda>_. 0) size) kvs"
  by (induction kvs) auto

text \<open>
  \<^verbatim>\<open>_parseQuery\<close> in three parts. \<open>parseQueryRec\<close> is its entry: the test for
  \<^verbatim>\<open>undefined\<close>, the new expression and the array test (the context is the pair of
  \<^verbatim>\<open>sourceKey\<close> and \<^verbatim>\<open>isOptional\<close>). \<open>parseBody\<close> is the rest of the function,
  run on the possibly unwrapped query: the test for \<^verbatim>\<open>true\<close>, then
  \<^verbatim>\<open>typeof query !== 'object' || query === null\<close>, which lets objects and arrays
  through, then the loop and the end of the function. \<open>parseEntries\<close> is the loop over
  \<^verbatim>\<open>Object.entries(query)\<close>; a \<^verbatim>\<open>throw\<close> leaves it with \<open>Inl\<close>.
\<close>

function (sequential)
  parseQueryRec :: "string list \<Rightarrow> config \<Rightarrow> jsvalue \<Rightarrow> string \<times> bool \<Rightarrow> error + expression"
  and parseBody :: "string list \<Rightarrow> config \<Rightarrow> expression \<Rightarrow> jsvalue \<Rightarrow> error + expression"
  and parseEntries ::
    "string list \<Rightarrow> config \<Rightarrow> (string \<times> jsvalue) list \<Rightarrow> loopState \<Rightarrow> error + loopState"
where
  "parseQueryRec bk cfg JUndefined (src, opt) = Inl MissingQuery"
| "parseQueryRec bk cfg (JArray xs) (src, opt) =
     (case xs of
        [x] \<Rightarrow> parseBody bk cfg (Expression src opt True None None None) x
      | _ \<Rightarrow> Inl InvalidArraySyntax)"
| "parseQueryRec bk cfg q (src, opt) =
     parseBody bk cfg (Expression src opt False None None None) q"
| "parseBody bk cfg e (JBool True) = Inr e"
| "parseBody bk cfg e (JObject kvs) =
     (case parseEntries bk cfg kvs (startLevel e) of
        Inl err \<Rightarrow> Inl err
      | Inr st \<Rightarrow> finishLevel st)"
| "parseBody bk cfg e (JArray xs) =
     (case parseEntries bk cfg (arrayEntries xs) (startLevel e) of
        Inl err \<Rightarrow> Inl err
      | Inr st \<Rightarrow> finishLevel st)"
| "parseBody bk cfg e q = Inl (InvalidQueryShape q)"
| "parseEntries bk cfg [] st = Inr st"
| "parseEntries bk cfg ((key, v) # rest) st =
     (if key = ''()'' then parseEntries bk cfg rest (st\<lparr>expr := setParams v (expr st)\<rparr>)
      else
        (case parseKey key of
           Inl err \<Rightarrow> Inl err
         | Inr (src, tgt, opt) \<Rightarrow>
             (if builtInFiltered bk cfg src then parseEntries bk cfg rest st
              else if ignored cfg src then parseEntries bk cfg rest st
              else
                (case parseQueryRec bk cfg v (src, opt) of
                   Inl err \<Rightarrow> Inl err
                 | Inr sub \<Rightarrow>
                     (if tgt \<noteq> [] then
                        parseEntries bk cfg rest
                          (st\<lparr>nested :=
                             Some (setProperty tgt sub
                                     (case nested st of None \<Rightarrow> [] | Some ps \<Rightarrow> ps))\<rparr>)
                      else if nextE st \<noteq> None then Inl MultipleEmptyTargets
                      else parseEntries bk cfg rest (st\<lparr>nextE := Some sub\<rparr>))))))"
  by pat_completeness auto

termination
  apply (relation "measure (\<lambda>a. case a of
           Inl (bk, cfg, q, ctx) \<Rightarrow> 2 * size q + 1
         | Inr (Inl (bk, cfg, e, q)) \<Rightarrow> 2 * size q
         | Inr (Inr (bk, cfg, kvs, st)) \<Rightarrow> 2 * size_list (\<lambda>p. size (snd p)) kvs)")
  apply (simp_all add: size_arrayEntries)
  subgoal for kvs using size_objectEntries [of kvs] by simp
  done

text \<open>
  The options object of the exported \<^verbatim>\<open>parseQuery\<close>: a matcher option is absent, a
  single matcher, or an array of matchers (\<^verbatim>\<open>Array.isArray\<close>).
\<close>

datatype matchers = Single matcher | Many "matcher list"

record options =
  optIgnoreKeys :: "matchers option"
  optAcceptKeys :: "matchers option"
  optIgnoreBuiltInKeys :: "bool option"

definition matcherList :: "matchers option \<Rightarrow> matcher list" where
  "matcherList m = (case m of None \<Rightarrow> [] | Some (Single x) \<Rightarrow> [x] | Some (Many xs) \<Rightarrow> xs)"

definition normalise :: "options \<Rightarrow> config" where
  "normalise opts =
     \<lparr> ignoreKeys = matcherList (optIgnoreKeys opts),
       acceptKeys = matcherList (optAcceptKeys opts),
       ignoreBuiltInKeys = (case optIgnoreBuiltInKeys opts of None \<Rightarrow> True | Some b \<Rightarrow> b) \<rparr>"

definition defaultOptions :: options where
  "defaultOptions =
     \<lparr> optIgnoreKeys = None, optAcceptKeys = None, optIgnoreBuiltInKeys = None \<rparr>"

definition parseQuery :: "string list \<Rightarrow> jsvalue \<Rightarrow> options \<Rightarrow> error + expression" where
  "parseQuery bk query opts =
     (if query = JUndefined then Inl MissingQuery
      else parseQueryRec bk (normalise opts) query ([], False))"

subsection \<open>Patterns that keep state\<close>



















subsection \<open>Notions used to state the properties\<close>

text \<open>
  What the loop body does with an entry depends on its key alone, up to the recursive
  call: the parameter marker, a key that does not parse, a key that one of the two
  filters drops, or a key whose value is parsed as a sub-query.
\<close>

datatype entryKind = Marker | BadKey error | Skipped | Accepted string string bool

definition classify :: "string list \<Rightarrow> config \<Rightarrow> string \<Rightarrow> entryKind" where
  "classify bk cfg key =
     (if key = ''()'' then Marker
      else (case parseKey key of
              Inl err \<Rightarrow> BadKey err
            | Inr (src, tgt, opt) \<Rightarrow>
                (if builtInFiltered bk cfg src \<or> ignored cfg src then Skipped
                 else Accepted src tgt opt)))"

text \<open>
  The end of the loop body: the subexpression is stored under its target key, or becomes
  the next expression.
\<close>

definition attach :: "string \<Rightarrow> expression \<Rightarrow> loopState \<Rightarrow> error + loopState" where
  "attach tgt sub st =
     (if tgt \<noteq> [] then
        Inr (st\<lparr>nested := Some (setProperty tgt sub
                                  (case nested st of None \<Rightarrow> [] | Some ps \<Rightarrow> ps))\<rparr>)
      else if nextE st \<noteq> None then Inl MultipleEmptyTargets
      else Inr (st\<lparr>nextE := Some sub\<rparr>))"

text \<open>
  The accepted entries of a level, in order: source key, target key, optionality and raw
  value of every entry that is not the parameter marker and is not dropped by a filter.
\<close>

fun accepted ::
  "string list \<Rightarrow> config \<Rightarrow> (string \<times> jsvalue) list \<Rightarrow> (string \<times> string \<times> bool \<times> jsvalue) list"
where
  "accepted bk cfg [] = []"
| "accepted bk cfg ((key, v) # rest) =
     (case classify bk cfg key of
        Accepted src tgt opt \<Rightarrow> (src, tgt, opt, v) # accepted bk cfg rest
      | _ \<Rightarrow> accepted bk cfg rest)"

definition targetKeys ::
  "string list \<Rightarrow> config \<Rightarrow> (string \<times> jsvalue) list \<Rightarrow> string list" where
  "targetKeys bk cfg kvs = map (\<lambda>(src, tgt, opt, v). tgt) (accepted bk cfg kvs)"

definition succeeds :: "error + 'a \<Rightarrow> bool" where
  "succeeds r = (case r of Inl err \<Rightarrow> False | Inr x \<Rightarrow> True)"

text \<open>
  A level is regular when every key that is not the marker parses and every accepted
  value parses as a sub-query, so that no error other than the two target errors can
  arise at this level.
\<close>

fun regular :: "string list \<Rightarrow> config \<Rightarrow> (string \<times> jsvalue) list \<Rightarrow> bool" where
  "regular bk cfg [] = True"
| "regular bk cfg ((key, v) # rest) =
     ((case classify bk cfg key of
         BadKey err \<Rightarrow> False
       | Accepted src tgt opt \<Rightarrow> succeeds (parseQueryRec bk cfg v (src, opt))
       | _ \<Rightarrow> True) \<and> regular bk cfg rest)"

text \<open>
  No node of the tree has both a next expression and nested expressions.
\<close>

fun exclusive :: "expression \<Rightarrow> bool" where
  "exclusive (Expression src opt uce ps nx ns) =
     (\<not> (nx \<noteq> None \<and> ns \<noteq> None)
      \<and> (\<forall>c \<in> set_option nx. exclusive c)
      \<and> (\<forall>cs \<in> set_option ns. \<forall>c \<in> snd ` set cs. exclusive c))"

text \<open>
  The child appears exactly once at the level of \<open>e\<close>: as the next expression when the
  target key is empty, as the only nested entry with that target key otherwise.
\<close>

definition appears :: "expression \<Rightarrow> string \<Rightarrow> expression \<Rightarrow> bool" where
  "appears e tgt child =
     (if tgt = [] then nextExpression e = Some child
      else (case nestedExpressions e of
              None \<Rightarrow> False
            | Some ps \<Rightarrow> map_of ps tgt = Some child
                         \<and> length (filter (\<lambda>p. fst p = tgt) ps) = 1))"

text \<open>The loop changes nothing of the expression but its parameters.\<close>

definition sameButParams :: "expression \<Rightarrow> expression \<Rightarrow> bool" where
  "sameButParams e e' =
     (sourceKey e' = sourceKey e \<and> isOptional e' = isOptional e
      \<and> useCollectionElements e' = useCollectionElements e
      \<and> nextExpression e' = nextExpression e \<and> nestedExpressions e' = nestedExpressions e)"

text \<open>Reading a key of the \<open>nestedExpressions\<close> object, and the distinctness of its keys.\<close>

definition lookupNested :: "(string \<times> expression) list option \<Rightarrow> string \<Rightarrow> expression option" where
  "lookupNested ns tgt = (case ns of None \<Rightarrow> None | Some ps \<Rightarrow> map_of ps tgt)"

definition distinctNested :: "(string \<times> expression) list option \<Rightarrow> bool" where
  "distinctNested ns = (case ns of None \<Rightarrow> True | Some ps \<Rightarrow> distinct (map fst ps))"

text \<open>The children held by a loop state.\<close>

definition stateChildren :: "loopState \<Rightarrow> expression set" where
  "stateChildren st = set_option (nextE st) \<union> (\<Union>ps \<in> set_option (nested st). snd ` set ps)"

text \<open>
  \<^verbatim>\<open>expression.useCollectionElements = true\<close>.
\<close>

definition setCollection :: "expression \<Rightarrow> expression" where
  "setCollection e =
     Expression (sourceKey e) (isOptional e) True (params e)
       (nextExpression e) (nestedExpressions e)"

text \<open>
  The parameter markers of a level: their effect on the expression, their values in
  order, and the level without them.
\<close>

fun applyMarkers :: "(string \<times> jsvalue) list \<Rightarrow> expression \<Rightarrow> expression" where
  "applyMarkers [] e = e"
| "applyMarkers ((key, v) # rest) e =
     applyMarkers rest (if key = ''()'' then setParams v e else e)"

definition markerValues :: "(string \<times> jsvalue) list \<Rightarrow> jsvalue list" where
  "markerValues kvs = map snd (filter (\<lambda>p. fst p = ''()'') kvs)"

definition withoutMarker :: "(string \<times> jsvalue) list \<Rightarrow> (string \<times> jsvalue) list" where
  "withoutMarker kvs = filter (\<lambda>p. fst p \<noteq> ''()'') kvs"

text \<open>The expression without its parameters.\<close>

definition dropParams :: "expression \<Rightarrow> expression" where
  "dropParams e =
     Expression (sourceKey e) (isOptional e) (useCollectionElements e) None
       (nextExpression e) (nestedExpressions e)"


section \<open>Properties\<close>

declare decimal.simps [simp del]

subsection \<open>Key syntax\<close>

lemma split_arrow_no_separator: "CHR ''='' \<notin> set s \<Longrightarrow> split_arrow s = [s]"
  by (induction s rule: split_arrow.induct) auto

lemma parseKey_single:
  "split_arrow key = [raw] \<Longrightarrow>
   parseKey key = Inr (fst (parseSourceKey raw), fst (parseSourceKey raw), snd (parseSourceKey raw))"
  by (simp add: parseKey_def split: prod.splits)

lemma parseKey_pair:
  "split_arrow key = [raw, tgt] \<Longrightarrow>
   parseKey key = Inr (fst (parseSourceKey raw), tgt, snd (parseSourceKey raw))"
  by (simp add: parseKey_def split: prod.splits)

text \<open>
  Claim C8. When the raw source part of a key (the first piece of the split) ends with
  the question mark, \<open>parseKey\<close> removes that one character and reports the key as
  optional; the target is the second piece when there is one and the stripped source
  otherwise. A key that has no equals sign has no separator. With the default options,
  \<^verbatim>\<open>parseQuery({"rating?": true})\<close> gives a root whose \<open>nestedExpressions\<close> holds, under
  the target key \<^verbatim>\<open>rating\<close>, a child with \<open>sourceKey\<close> \<^verbatim>\<open>rating\<close> and \<open>isOptional\<close>
  true.
\<close>

theorem parseKey_optional_marker:
  "(split_arrow key = [raw] \<and> raw \<noteq> [] \<and> last raw = CHR ''?'' \<longrightarrow>
      parseKey key = Inr (butlast raw, butlast raw, True))
   \<and> (split_arrow key = [raw, tgt] \<and> raw \<noteq> [] \<and> last raw = CHR ''?'' \<longrightarrow>
      parseKey key = Inr (butlast raw, tgt, True))
   \<and> (CHR ''='' \<notin> set src \<longrightarrow> parseKey (src @ ''?'') = Inr (src, src, True))
   \<and> parseQuery (builtInKeys standardHost) (JObject [(''rating?'', JBool True)]) defaultOptions
       = Inr (Expression [] False False None None
               (Some [(''rating'', Expression ''rating'' True False None None None)]))"
proof (intro conjI impI)
  assume "split_arrow key = [raw] \<and> raw \<noteq> [] \<and> last raw = CHR ''?''"
  then show "parseKey key = Inr (butlast raw, butlast raw, True)"
    by (simp add: parseKey_single parseSourceKey_def)
next
  assume "split_arrow key = [raw, tgt] \<and> raw \<noteq> [] \<and> last raw = CHR ''?''"
  then show "parseKey key = Inr (butlast raw, tgt, True)"
    by (simp add: parseKey_pair parseSourceKey_def)
next
  assume "CHR ''='' \<notin> set src"
  then have "split_arrow (src @ ''?'') = [src @ ''?'']"
    by (simp add: split_arrow_no_separator)
  then show "parseKey (src @ ''?'') = Inr (src, src, True)"
    by (simp add: parseKey_single parseSourceKey_def)
next
  show "parseQuery (builtInKeys standardHost) (JObject [(''rating?'', JBool True)]) defaultOptions
       = Inr (Expression [] False False None None
               (Some [(''rating'', Expression ''rating'' True False None None None)]))"
    by code_simp
qed

theorem parseKey_optional_marker_witness:
  "split_arrow ''rating?'' = [''rating?''] \<and> ''rating?'' \<noteq> [] \<and> last ''rating?'' = CHR ''?''
   \<and> parseKey ''rating?'' = Inr (''rating'', ''rating'', True)
   \<and> split_arrow ''a?=>b'' = [''a?'', ''b''] \<and> ''a?'' \<noteq> [] \<and> last ''a?'' = CHR ''?''
   \<and> parseKey ''a?=>b'' = Inr (''a'', ''b'', True)
   \<and> CHR ''='' \<notin> set ''score''
   \<and> parseKey (''score'' @ ''?'') = Inr (''score'', ''score'', True)"
  using parseKey_optional_marker [of "''rating?''" "''rating?''" "''b''" "''score''"]
    parseKey_optional_marker [of "''a?=>b''" "''a?''" "''b''" "''score''"]
  by simp

subsection \<open>The loop over the entries\<close>

lemma parseEntries_Cons:
  "parseEntries bk cfg ((key, v) # rest) st =
     (case classify bk cfg key of
        Marker \<Rightarrow> parseEntries bk cfg rest (st\<lparr>expr := setParams v (expr st)\<rparr>)
      | BadKey err \<Rightarrow> Inl err
      | Skipped \<Rightarrow> parseEntries bk cfg rest st
      | Accepted src tgt opt \<Rightarrow>
          (case parseQueryRec bk cfg v (src, opt) of
             Inl err \<Rightarrow> Inl err
           | Inr sub \<Rightarrow>
               (case attach tgt sub st of
                  Inl err \<Rightarrow> Inl err
                | Inr st1 \<Rightarrow> parseEntries bk cfg rest st1)))"
  by (simp add: classify_def attach_def split: sum.splits prod.splits)

declare parseEntries.simps(2) [simp del]

lemma parseEntries_append:
  "parseEntries bk cfg (xs @ ys) st =
     (case parseEntries bk cfg xs st of
        Inl err \<Rightarrow> Inl err
      | Inr st1 \<Rightarrow> parseEntries bk cfg ys st1)"
proof (induction xs arbitrary: st)
  case Nil
  show ?case by simp
next
  case (Cons x xs)
  obtain key v where x: "x = (key, v)" by (cases x)
  show ?case
    unfolding x append_Cons parseEntries_Cons
    by (simp add: Cons.IH split: entryKind.splits sum.splits)
qed

lemma attach_named:
  "tgt \<noteq> [] \<Longrightarrow>
   attach tgt sub st =
     Inr (st\<lparr>nested := Some (setProperty tgt sub
                                (case nested st of None \<Rightarrow> [] | Some ps \<Rightarrow> ps))\<rparr>)"
  by (simp add: attach_def)

lemma attach_empty:
  "attach [] sub st =
     (if nextE st \<noteq> None then Inl MultipleEmptyTargets else Inr (st\<lparr>nextE := Some sub\<rparr>))"
  by (simp add: attach_def)

lemma attach_expr: "attach tgt sub st = Inr st1 \<Longrightarrow> expr st1 = expr st"
  by (auto simp: attach_def split: if_splits)

lemma attach_nextE_kept:
  "attach tgt sub st = Inr st1 \<Longrightarrow> nextE st \<noteq> None \<Longrightarrow> nextE st1 = nextE st \<and> tgt \<noteq> []"
  by (auto simp: attach_def split: if_splits)

lemma attach_nested_kept:
  "attach tgt sub st = Inr st1 \<Longrightarrow> nested st \<noteq> None \<Longrightarrow> nested st1 \<noteq> None"
  by (auto simp: attach_def split: if_splits)

lemma parseEntries_ConsE:
  assumes "parseEntries bk cfg ((key, v) # rest) st = Inr st'"
  obtains
    (marker) "classify bk cfg key = Marker"
      "parseEntries bk cfg rest (st\<lparr>expr := setParams v (expr st)\<rparr>) = Inr st'"
  | (skipped) "classify bk cfg key = Skipped" "parseEntries bk cfg rest st = Inr st'"
  | (accepted) src tgt opt sub st1 where
      "classify bk cfg key = Accepted src tgt opt"
      "parseQueryRec bk cfg v (src, opt) = Inr sub"
      "attach tgt sub st = Inr st1"
      "parseEntries bk cfg rest st1 = Inr st'"
  using assms unfolding parseEntries_Cons
  by (auto split: entryKind.splits sum.splits)

lemma targetKeys_Nil: "targetKeys bk cfg [] = []"
  by (simp add: targetKeys_def)

lemma targetKeys_Cons:
  "targetKeys bk cfg ((key, v) # rest) =
     (case classify bk cfg key of
        Accepted src tgt opt \<Rightarrow> tgt # targetKeys bk cfg rest
      | _ \<Rightarrow> targetKeys bk cfg rest)"
  by (simp add: targetKeys_def split: entryKind.splits)

lemma targetKeys_append:
  "targetKeys bk cfg (xs @ ys) = targetKeys bk cfg xs @ targetKeys bk cfg ys"
proof (induction xs)
  case Nil
  show ?case by (simp add: targetKeys_Nil)
next
  case (Cons x xs)
  obtain key v where x: "x = (key, v)" by (cases x)
  show ?case unfolding x append_Cons targetKeys_Cons
    by (simp add: Cons.IH split: entryKind.splits)
qed

lemma parseEntries_expr:
  "parseEntries bk cfg kvs st = Inr st' \<Longrightarrow> sameButParams (expr st) (expr st')"
proof (induction kvs arbitrary: st)
  case Nil
  then show ?case by (simp add: sameButParams_def)
next
  case (Cons x kvs)
  obtain key v where x: "x = (key, v)" by (cases x)
  from Cons.prems [unfolded x] show ?case
  proof (cases rule: parseEntries_ConsE)
    case marker
    from Cons.IH [OF marker(2)] show ?thesis
      by (simp add: sameButParams_def setParams_def)
  next
    case skipped
    from Cons.IH [OF skipped(2)] show ?thesis .
  next
    case (accepted src tgt opt sub st1)
    from Cons.IH [OF accepted(4)] attach_expr [OF accepted(3)] show ?thesis
      by simp
  qed
qed

text \<open>Once set, the next expression stays, and no later accepted entry has an empty target.\<close>

lemma parseEntries_nextE_kept:
  "parseEntries bk cfg kvs st = Inr st' \<Longrightarrow> nextE st \<noteq> None \<Longrightarrow>
   nextE st' = nextE st \<and> [] \<notin> set (targetKeys bk cfg kvs)"
proof (induction kvs arbitrary: st)
  case Nil
  then show ?case by (simp add: targetKeys_Nil)
next
  case (Cons x kvs)
  obtain key v where x: "x = (key, v)" by (cases x)
  from Cons.prems(1) [unfolded x] show ?case
  proof (cases rule: parseEntries_ConsE)
    case marker
    from Cons.IH [OF marker(2)] Cons.prems(2) marker(1) show ?thesis
      by (simp add: x targetKeys_Cons)
  next
    case skipped
    from Cons.IH [OF skipped(2)] Cons.prems(2) skipped(1) show ?thesis
      by (simp add: x targetKeys_Cons)
  next
    case (accepted src tgt opt sub st1)
    from attach_nextE_kept [OF accepted(3) Cons.prems(2)]
    have st1: "nextE st1 = nextE st" and tgt: "tgt \<noteq> []" by simp_all
    from Cons.IH [OF accepted(4)] st1 Cons.prems(2) tgt accepted(1) show ?thesis
      by (simp add: x targetKeys_Cons)
  qed
qed

lemma map_of_setProperty:
  "map_of (setProperty k v ps) k' =
     (if k = k' \<and> k \<noteq> ''__proto__'' then Some v else map_of ps k')"
  by (simp add: setProperty_def update_conv')

lemma distinct_setProperty:
  "distinct (map fst ps) \<Longrightarrow> distinct (map fst (setProperty k v ps))"
  by (simp add: setProperty_def distinct_update)

lemma set_setProperty: "snd ` set (setProperty k v ps) \<subseteq> insert v (snd ` set ps)"
proof (cases "k = ''__proto__''")
  case True
  then show ?thesis by (auto simp: setProperty_def)
next
  case False
  have "snd ` set (AList.update k v ps) \<subseteq> insert v (snd ` set ps)"
    by (induction ps) auto
  with False show ?thesis by (simp add: setProperty_def)
qed

lemma attach_lookup:
  "attach tgt sub st = Inr st1 \<Longrightarrow>
   lookupNested (nested st1) t =
     (if tgt = t \<and> t \<noteq> [] \<and> t \<noteq> ''__proto__'' then Some sub else lookupNested (nested st) t)"
  by (auto simp: attach_def lookupNested_def map_of_setProperty split: if_splits option.splits)

lemma attach_distinct:
  "attach tgt sub st = Inr st1 \<Longrightarrow> distinctNested (nested st) \<Longrightarrow> distinctNested (nested st1)"
  by (auto simp: attach_def distinctNested_def distinct_setProperty split: if_splits option.splits)

lemma attach_nested_set:
  "attach tgt sub st = Inr st1 \<Longrightarrow> (nested st1 \<noteq> None) = (nested st \<noteq> None \<or> tgt \<noteq> [])"
  by (auto simp: attach_def split: if_splits)

lemma attach_nextE_set:
  "attach tgt sub st = Inr st1 \<Longrightarrow> nextE st = None \<Longrightarrow>
   nextE st1 = (if tgt = [] then Some sub else None)"
  by (auto simp: attach_def split: if_splits)

text \<open>A target key that no accepted entry uses is left as it was.\<close>

lemma parseEntries_lookup_other:
  "parseEntries bk cfg kvs st = Inr st' \<Longrightarrow> t \<notin> set (targetKeys bk cfg kvs) \<Longrightarrow>
   lookupNested (nested st') t = lookupNested (nested st) t"
proof (induction kvs arbitrary: st)
  case Nil
  then show ?case by simp
next
  case (Cons x kvs)
  obtain key v where x: "x = (key, v)" by (cases x)
  from Cons.prems(1) [unfolded x] show ?case
  proof (cases rule: parseEntries_ConsE)
    case marker
    from Cons.IH [OF marker(2)] Cons.prems(2) marker(1) show ?thesis
      by (simp add: x targetKeys_Cons)
  next
    case skipped
    from Cons.IH [OF skipped(2)] Cons.prems(2) skipped(1) show ?thesis
      by (simp add: x targetKeys_Cons)
  next
    case (accepted src tgt opt sub st1)
    from Cons.prems(2) accepted(1) have ne: "tgt \<noteq> t" and rest: "t \<notin> set (targetKeys bk cfg kvs)"
      by (auto simp: x targetKeys_Cons)
    from Cons.IH [OF accepted(4) rest] attach_lookup [OF accepted(3), of t] ne show ?thesis
      by simp
  qed
qed

lemma parseEntries_distinct:
  "parseEntries bk cfg kvs st = Inr st' \<Longrightarrow> distinctNested (nested st) \<Longrightarrow>
   distinctNested (nested st')"
proof (induction kvs arbitrary: st)
  case Nil
  then show ?case by simp
next
  case (Cons x kvs)
  obtain key v where x: "x = (key, v)" by (cases x)
  from Cons.prems(1) [unfolded x] show ?case
  proof (cases rule: parseEntries_ConsE)
    case marker
    from Cons.IH [OF marker(2)] Cons.prems(2) show ?thesis by simp
  next
    case skipped
    from Cons.IH [OF skipped(2)] Cons.prems(2) show ?thesis by simp
  next
    case (accepted src tgt opt sub st1)
    from Cons.IH [OF accepted(4)] attach_distinct [OF accepted(3) Cons.prems(2)]
    show ?thesis by simp
  qed
qed

text \<open>The nested object exists exactly when some accepted entry has a non-empty target.\<close>

lemma parseEntries_nested_set:
  "parseEntries bk cfg kvs st = Inr st' \<Longrightarrow>
   (nested st' \<noteq> None) = (nested st \<noteq> None \<or> (\<exists>t \<in> set (targetKeys bk cfg kvs). t \<noteq> []))"
proof (induction kvs arbitrary: st)
  case Nil
  then show ?case by (simp add: targetKeys_Nil)
next
  case (Cons x kvs)
  obtain key v where x: "x = (key, v)" by (cases x)
  from Cons.prems(1) [unfolded x] show ?case
  proof (cases rule: parseEntries_ConsE)
    case marker
    from Cons.IH [OF marker(2)] marker(1) show ?thesis
      by (simp add: x targetKeys_Cons)
  next
    case skipped
    from Cons.IH [OF skipped(2)] skipped(1) show ?thesis
      by (simp add: x targetKeys_Cons)
  next
    case (accepted src tgt opt sub st1)
    from Cons.IH [OF accepted(4)] attach_nested_set [OF accepted(3)] accepted(1)
    show ?thesis
      by (auto simp: x targetKeys_Cons)
  qed
qed

text \<open>
  The next expression exists exactly when some accepted entry has the empty target, and
  a successful loop has seen at most one such entry.
\<close>

lemma parseEntries_nextE_set:
  "parseEntries bk cfg kvs st = Inr st' \<Longrightarrow> nextE st = None \<Longrightarrow>
   (nextE st' \<noteq> None) = ([] \<in> set (targetKeys bk cfg kvs))
   \<and> count_list (targetKeys bk cfg kvs) [] \<le> 1"
proof (induction kvs arbitrary: st)
  case Nil
  then show ?case by (simp add: targetKeys_Nil)
next
  case (Cons x kvs)
  obtain key v where x: "x = (key, v)" by (cases x)
  from Cons.prems(1) [unfolded x] show ?case
  proof (cases rule: parseEntries_ConsE)
    case marker
    from Cons.IH [OF marker(2)] Cons.prems(2) marker(1) show ?thesis
      by (simp add: x targetKeys_Cons)
  next
    case skipped
    from Cons.IH [OF skipped(2)] Cons.prems(2) skipped(1) show ?thesis
      by (simp add: x targetKeys_Cons)
  next
    case (accepted src tgt opt sub st1)
    note st1 = attach_nextE_set [OF accepted(3) Cons.prems(2)]
    show ?thesis
    proof (cases "tgt = []")
      case True
      with st1 have "nextE st1 \<noteq> None" by simp
      from parseEntries_nextE_kept [OF accepted(4) this] st1 True accepted(1)
      show ?thesis by (simp add: x targetKeys_Cons)
    next
      case False
      with st1 have "nextE st1 = None" by simp
      from Cons.IH [OF accepted(4) this] False accepted(1)
      show ?thesis by (auto simp: x targetKeys_Cons)
    qed
  qed
qed

text \<open>
  On a regular level the loop fails exactly when it meets a second empty target.
\<close>

lemma parseEntries_regular:
  "regular bk cfg kvs \<Longrightarrow>
   (if 2 \<le> count_list (targetKeys bk cfg kvs) [] + (if nextE st = None then 0 else 1)
    then parseEntries bk cfg kvs st = Inl MultipleEmptyTargets
    else succeeds (parseEntries bk cfg kvs st))"
proof (induction kvs arbitrary: st)
  case Nil
  show ?case by (simp add: targetKeys_Nil succeeds_def)
next
  case (Cons x kvs)
  obtain key v where x: "x = (key, v)" by (cases x)
  from Cons.prems have reg: "regular bk cfg kvs" by (simp add: x)
  note IH = Cons.IH [OF reg]
  show ?case
  proof (cases "classify bk cfg key")
    case Marker
    with IH [of "st\<lparr>expr := setParams v (expr st)\<rparr>"] show ?thesis
      by (simp add: x parseEntries_Cons targetKeys_Cons)
  next
    case (BadKey err)
    with Cons.prems show ?thesis by (simp add: x)
  next
    case Skipped
    with IH [of st] show ?thesis
      by (simp add: x parseEntries_Cons targetKeys_Cons)
  next
    case (Accepted src tgt opt)
    with Cons.prems obtain sub where sub: "parseQueryRec bk cfg v (src, opt) = Inr sub"
      by (auto simp: x succeeds_def split: sum.splits)
    show ?thesis
    proof (cases "tgt = []")
      case False
      with IH [of "st\<lparr>nested := Some (setProperty tgt sub
                       (case nested st of None \<Rightarrow> [] | Some ps \<Rightarrow> ps))\<rparr>"]
        Accepted sub
      show ?thesis
        by (simp add: x parseEntries_Cons targetKeys_Cons attach_named)
    next
      case True
      show ?thesis
      proof (cases "nextE st = None")
        case False
        with True Accepted sub show ?thesis
          by (auto simp: x parseEntries_Cons targetKeys_Cons attach_empty)
      next
        case nx: True
        with IH [of "st\<lparr>nextE := Some sub\<rparr>"] True Accepted sub show ?thesis
          by (simp add: x parseEntries_Cons targetKeys_Cons attach_empty)
      qed
    qed
  qed
qed

lemma finishLevel_Inr:
  "finishLevel st = Inr e \<Longrightarrow> nextExpression (expr st) = None \<Longrightarrow>
   nestedExpressions (expr st) = None \<Longrightarrow>
   nextExpression e = nextE st \<and> nestedExpressions e = nested st
   \<and> \<not> (nextE st \<noteq> None \<and> nested st \<noteq> None)
   \<and> sourceKey e = sourceKey (expr st) \<and> isOptional e = isOptional (expr st)
   \<and> useCollectionElements e = useCollectionElements (expr st)
   \<and> params e = params (expr st)"
  by (auto simp: finishLevel_def setNext_def setNested_def split: option.splits if_splits)

lemma finishLevel_conflict:
  "nextE st \<noteq> None \<Longrightarrow> nested st \<noteq> None \<Longrightarrow> finishLevel st = Inl ConflictingTargets"
  by (auto simp: finishLevel_def)

lemma finishLevel_succeeds:
  "\<not> (nextE st \<noteq> None \<and> nested st \<noteq> None) \<Longrightarrow> succeeds (finishLevel st)"
  by (auto simp: finishLevel_def succeeds_def split: option.splits)

lemma in_setProperty:
  "(k, c) \<in> set (setProperty tgt sub ps) \<Longrightarrow> c = sub \<or> c \<in> snd ` set ps"
  using set_setProperty [of tgt sub ps] by force

lemma attach_children:
  "attach tgt sub st = Inr st1 \<Longrightarrow> stateChildren st1 \<subseteq> insert sub (stateChildren st)"
  by (auto simp: attach_def stateChildren_def split: if_splits option.splits
      dest!: in_setProperty)

lemma exclusive_finish:
  assumes "finishLevel st = Inr e"
    and "nextExpression (expr st) = None" and "nestedExpressions (expr st) = None"
    and "\<forall>c \<in> stateChildren st. exclusive c"
  shows "exclusive e"
proof -
  note f = finishLevel_Inr [OF assms(1-3)]
  obtain src opt uce ps nx ns where e: "e = Expression src opt uce ps nx ns" by (cases e)
  from f assms(4) show ?thesis
    by (auto simp: e stateChildren_def)
qed

subsection \<open>An expression never has both kinds of children\<close>

lemma parseEntries_children:
  assumes sub: "\<And>key v ctx e. (key, v) \<in> set kvs \<Longrightarrow>
                  parseQueryRec bk cfg v ctx = Inr e \<Longrightarrow> exclusive e"
    and run: "parseEntries bk cfg kvs st = Inr st'"
    and inv: "\<forall>c \<in> stateChildren st. exclusive c"
  shows "\<forall>c \<in> stateChildren st'. exclusive c"
  using assms
proof (induction kvs arbitrary: st)
  case Nil
  then show ?case by simp
next
  case (Cons x kvs)
  obtain key v where x: "x = (key, v)" by (cases x)
  have sub': "exclusive e"
    if "(key, v) \<in> set kvs" "parseQueryRec bk cfg v ctx = Inr e" for key v ctx e
    using Cons.prems(1) [of key v ctx e] that by simp
  from Cons.prems(2) [unfolded x] show ?case
  proof (cases rule: parseEntries_ConsE)
    case marker
    have "stateChildren (st\<lparr>expr := setParams v (expr st)\<rparr>) = stateChildren st"
      by (simp add: stateChildren_def)
    with Cons.IH [OF sub' marker(2)] Cons.prems(3) show ?thesis by simp
  next
    case skipped
    from Cons.IH [OF sub' skipped(2)] Cons.prems(3) show ?thesis by simp
  next
    case (accepted src tgt opt sub st1)
    have "exclusive sub"
      using Cons.prems(1) [of key v "(src, opt)" sub] accepted(2) by (simp add: x)
    with attach_children [OF accepted(3)] Cons.prems(3)
    have "\<forall>c \<in> stateChildren st1. exclusive c" by auto
    from Cons.IH [OF sub' accepted(4) this] show ?thesis by simp
  qed
qed

lemma set_arrayEntries: "(key, v) \<in> set (arrayEntries xs) \<Longrightarrow> v \<in> set xs"
  unfolding arrayEntries_def by (auto dest: set_zip_rightD)

lemma stateChildren_start: "stateChildren (startLevel e) = {}"
  by (simp add: stateChildren_def startLevel_def)

lemma exclusive_level:
  assumes sub: "\<And>key v ctx e. (key, v) \<in> set kvs \<Longrightarrow>
                  parseQueryRec bk cfg v ctx = Inr e \<Longrightarrow> exclusive e"
    and fresh: "nextExpression e0 = None" "nestedExpressions e0 = None"
    and run: "(case parseEntries bk cfg kvs (startLevel e0) of
                 Inl err \<Rightarrow> Inl err | Inr st \<Rightarrow> finishLevel st) = Inr e"
  shows "exclusive e"
proof -
  from run obtain st where st: "parseEntries bk cfg kvs (startLevel e0) = Inr st"
    and fin: "finishLevel st = Inr e"
    by (auto split: sum.splits)
  from parseEntries_expr [OF st] fresh
  have fresh': "nextExpression (expr st) = None" "nestedExpressions (expr st) = None"
    by (simp_all add: sameButParams_def startLevel_def)
  have "\<forall>c \<in> stateChildren st. exclusive c"
    by (rule parseEntries_children [OF sub st]) (simp_all add: stateChildren_start)
  from exclusive_finish [OF fin fresh' this] show ?thesis .
qed

lemma exclusive_fresh:
  "nextExpression e0 = None \<Longrightarrow> nestedExpressions e0 = None \<Longrightarrow> exclusive e0"
  by (cases e0) simp

lemma exclusive_both:
  "(\<forall>ctx e. parseQueryRec bk cfg q ctx = Inr e \<longrightarrow> exclusive e)
   \<and> (\<forall>e0 e. nextExpression e0 = None \<longrightarrow> nestedExpressions e0 = None \<longrightarrow>
          parseBody bk cfg e0 q = Inr e \<longrightarrow> exclusive e)"
proof (induction q)
  case JUndefined
  show ?case by (auto simp: split_paired_all)
next
  case JNull
  show ?case by (auto simp: split_paired_all)
next
  case (JBool b)
  show ?case by (cases b) (auto simp: split_paired_all exclusive_fresh)
next
  case (JNumber n)
  show ?case by (auto simp: split_paired_all)
next
  case (JString s)
  show ?case by (auto simp: split_paired_all)
next
  case (JArray xs)
  have body: "exclusive e" if "nextExpression e0 = None" "nestedExpressions e0 = None"
    "parseBody bk cfg e0 (JArray xs) = Inr e" for e0 e
  proof (rule exclusive_level [OF _ that(1,2)])
    show "(case parseEntries bk cfg (arrayEntries xs) (startLevel e0) of
             Inl err \<Rightarrow> Inl err | Inr st \<Rightarrow> finishLevel st) = Inr e"
      using that(3) by simp
  next
    fix key v ctx e'
    assume "(key, v) \<in> set (arrayEntries xs)" "parseQueryRec bk cfg v ctx = Inr e'"
    with JArray [of v] set_arrayEntries show "exclusive e'" by blast
  qed
  have entry: "exclusive e" if "parseQueryRec bk cfg (JArray xs) ctx = Inr e" for ctx e
  proof -
    obtain src opt where ctx: "ctx = (src, opt)" by (cases ctx)
    from that obtain x where xs: "xs = [x]"
      and run: "parseBody bk cfg (Expression src opt True None None None) x = Inr e"
      by (auto simp: ctx split: list.splits)
    from JArray [of x] xs
    have "\<forall>e0 e. nextExpression e0 = None \<longrightarrow> nestedExpressions e0 = None \<longrightarrow>
            parseBody bk cfg e0 x = Inr e \<longrightarrow> exclusive e"
      by simp
    from this [rule_format, of "Expression src opt True None None None" e] run
    show ?thesis by simp
  qed
  from body entry show ?case by blast
next
  case (JObject kvs)
  have body: "exclusive e" if "nextExpression e0 = None" "nestedExpressions e0 = None"
    "parseBody bk cfg e0 (JObject kvs) = Inr e" for e0 e
  proof (rule exclusive_level [OF _ that(1,2)])
    show "(case parseEntries bk cfg kvs (startLevel e0) of
             Inl err \<Rightarrow> Inl err | Inr st \<Rightarrow> finishLevel st) = Inr e"
      using that(3) by simp
  next
    fix key v ctx e'
    assume "(key, v) \<in> set kvs" "parseQueryRec bk cfg v ctx = Inr e'"
    with JObject [of "(key, v)" v] show "exclusive e'" by (cases ctx) auto
  qed
  have entry: "exclusive e" if "parseQueryRec bk cfg (JObject kvs) ctx = Inr e" for ctx e
  proof -
    obtain src opt where ctx: "ctx = (src, opt)" by (cases ctx)
    from that body [of "Expression src opt False None None None" e] show ?thesis
      by (simp add: ctx)
  qed
  from body entry show ?case by blast
qed

lemma parseQueryRec_object:
  "parseQueryRec bk cfg (JObject kvs) (src, opt) =
     (case parseEntries bk cfg kvs (startLevel (Expression src opt False None None None)) of
        Inl err \<Rightarrow> Inl err
      | Inr st \<Rightarrow> finishLevel st)"
  by simp

lemma startLevel_simps:
  "nextE (startLevel e) = None" "nested (startLevel e) = None" "expr (startLevel e) = e"
  by (simp_all add: startLevel_def)

lemma regular_conflict:
  assumes reg: "regular bk cfg kvs"
    and one: "count_list (targetKeys bk cfg kvs) [] = 1"
    and named: "\<exists>t \<in> set (targetKeys bk cfg kvs). t \<noteq> []"
  shows "parseQueryRec bk cfg (JObject kvs) ctx = Inl ConflictingTargets"
proof -
  obtain src opt where ctx: "ctx = (src, opt)" by (cases ctx)
  let ?st0 = "startLevel (Expression src opt False None None None)"
  from parseEntries_regular [OF reg, of ?st0] one
  obtain st where st: "parseEntries bk cfg kvs ?st0 = Inr st"
    by (auto simp: startLevel_simps succeeds_def split: sum.splits)
  from one have "[] \<in> set (targetKeys bk cfg kvs)"
    by (metis count_list_0_iff zero_neq_one)
  with parseEntries_nextE_set [OF st] have nx: "nextE st \<noteq> None"
    by (simp add: startLevel_simps)
  from parseEntries_nested_set [OF st] named have ns: "nested st \<noteq> None"
    by simp
  from finishLevel_conflict [OF nx ns] st show ?thesis
    by (simp add: ctx)
qed

lemma regular_multiple:
  assumes reg: "regular bk cfg kvs"
    and two: "2 \<le> count_list (targetKeys bk cfg kvs) []"
  shows "parseQueryRec bk cfg (JObject kvs) ctx = Inl MultipleEmptyTargets"
proof -
  obtain src opt where ctx: "ctx = (src, opt)" by (cases ctx)
  from parseEntries_regular [OF reg, of "startLevel (Expression src opt False None None None)"] two
  show ?thesis by (simp add: ctx startLevel_simps)
qed

lemma success_at_most_one_empty:
  assumes "parseQueryRec bk cfg (JObject kvs) ctx = Inr e"
  shows "count_list (targetKeys bk cfg kvs) [] \<le> 1"
proof -
  obtain src opt where ctx: "ctx = (src, opt)" by (cases ctx)
  from assms obtain st where
    "parseEntries bk cfg kvs (startLevel (Expression src opt False None None None)) = Inr st"
    by (auto simp: ctx split: sum.splits)
  from parseEntries_nextE_set [OF this] show ?thesis by (simp add: startLevel_simps)
qed

text \<open>
  Claim C2. No node of a successfully parsed tree has both a next expression and nested
  expressions. A level whose keys all parse and whose accepted values all parse, with one
  accepted entry of empty target and at least one accepted entry of non-empty target,
  fails with \<open>ConflictingTargets\<close>; so does every level whose loop ends with both
  variables set. With the default options, \<^verbatim>\<open>parseQuery({"a=>": true, b: true})\<close> fails
  with \<open>ConflictingTargets\<close>.
\<close>

theorem next_and_nested_exclusive:
  "(parseQueryRec bk cfg q ctx = Inr e \<longrightarrow> exclusive e)
   \<and> (parseQuery bk q opts = Inr e \<longrightarrow> exclusive e)
   \<and> (regular bk cfg kvs \<and> count_list (targetKeys bk cfg kvs) [] = 1
        \<and> (\<exists>t \<in> set (targetKeys bk cfg kvs). t \<noteq> []) \<longrightarrow>
      parseQueryRec bk cfg (JObject kvs) ctx = Inl ConflictingTargets)
   \<and> (parseEntries bk cfg kvs (startLevel e0) = Inr st \<and> nextE st \<noteq> None \<and> nested st \<noteq> None
        \<longrightarrow> parseBody bk cfg e0 (JObject kvs) = Inl ConflictingTargets)
   \<and> parseQuery (builtInKeys standardHost)
        (JObject [(''a=>'', JBool True), (''b'', JBool True)]) defaultOptions
      = Inl ConflictingTargets"
proof (intro conjI impI)
  assume "parseQueryRec bk cfg q ctx = Inr e"
  with exclusive_both [of bk cfg q] show "exclusive e" by blast
next
  assume "parseQuery bk q opts = Inr e"
  then have "parseQueryRec bk (normalise opts) q ([], False) = Inr e"
    by (simp add: parseQuery_def split: if_splits)
  with exclusive_both [of bk "normalise opts" q] show "exclusive e" by blast
next
  assume "regular bk cfg kvs \<and> count_list (targetKeys bk cfg kvs) [] = 1
        \<and> (\<exists>t \<in> set (targetKeys bk cfg kvs). t \<noteq> [])"
  then show "parseQueryRec bk cfg (JObject kvs) ctx = Inl ConflictingTargets"
    using regular_conflict by blast
next
  assume "parseEntries bk cfg kvs (startLevel e0) = Inr st \<and> nextE st \<noteq> None \<and> nested st \<noteq> None"
  then show "parseBody bk cfg e0 (JObject kvs) = Inl ConflictingTargets"
    by (simp add: finishLevel_conflict)
next
  show "parseQuery (builtInKeys standardHost)
        (JObject [(''a=>'', JBool True), (''b'', JBool True)]) defaultOptions
      = Inl ConflictingTargets"
    by code_simp
qed

theorem next_and_nested_exclusive_witness:
  "parseQuery (builtInKeys standardHost)
     (JObject [(''movies'', JObject [(''reverse=>'', JArray [JObject [(''title'', JBool True)]])])])
     defaultOptions
   = Inr (Expression [] False False None None
       (Some [(''movies'', Expression ''movies'' False False None
           (Some (Expression ''reverse'' False True None None
              (Some [(''title'', Expression ''title'' False False None None None)])))
           None)]))
   \<and> exclusive (Expression [] False False None None
       (Some [(''movies'', Expression ''movies'' False False None
           (Some (Expression ''reverse'' False True None None
              (Some [(''title'', Expression ''title'' False False None None None)])))
           None)]))
   \<and> regular (builtInKeys standardHost) (normalise defaultOptions)
        [(''a=>'', JBool True), (''b'', JBool True)]
   \<and> count_list (targetKeys (builtInKeys standardHost) (normalise defaultOptions)
        [(''a=>'', JBool True), (''b'', JBool True)]) [] = 1
   \<and> (\<exists>t \<in> set (targetKeys (builtInKeys standardHost) (normalise defaultOptions)
        [(''a=>'', JBool True), (''b'', JBool True)]). t \<noteq> [])
   \<and> parseQueryRec (builtInKeys standardHost) (normalise defaultOptions)
        (JObject [(''a=>'', JBool True), (''b'', JBool True)]) ([], False)
      = Inl ConflictingTargets"
proof -
  let ?bk = "builtInKeys standardHost"
  let ?cfg = "normalise defaultOptions"
  let ?q = "JObject [(''movies'', JObject [(''reverse=>'', JArray [JObject [(''title'', JBool True)]])])]"
  let ?e = "Expression [] False False None None
       (Some [(''movies'', Expression ''movies'' False False None
           (Some (Expression ''reverse'' False True None None
              (Some [(''title'', Expression ''title'' False False None None None)])))
           None)])"
  let ?kvs = "[(''a=>'', JBool True), (''b'', JBool True)]"
  have run: "parseQuery ?bk ?q defaultOptions = Inr ?e" by code_simp
  have reg: "regular ?bk ?cfg ?kvs" by code_simp
  have one: "count_list (targetKeys ?bk ?cfg ?kvs) [] = 1" by code_simp
  have named: "\<exists>t \<in> set (targetKeys ?bk ?cfg ?kvs). t \<noteq> []" by code_simp
  from next_and_nested_exclusive [of ?bk ?cfg ?q "([], False)" ?e defaultOptions ?kvs]
    run reg one named
  show ?thesis by simp
qed

subsection \<open>Where the child of an accepted entry goes\<close>

text \<open>
  The child of an accepted entry: it becomes the next expression when the target is
  empty, and it is what the nested object holds under the target key unless a later
  accepted entry has the same target key.
\<close>

lemma entry_child:
  assumes run: "parseEntries bk cfg (pre @ (key, v) # post) st = Inr st'"
    and acc: "classify bk cfg key = Accepted src tgt opt"
  shows "\<exists>child. parseQueryRec bk cfg v (src, opt) = Inr child
           \<and> (tgt = [] \<longrightarrow> nextE st' = Some child)
           \<and> (tgt \<noteq> [] \<and> tgt \<noteq> ''__proto__'' \<and> tgt \<notin> set (targetKeys bk cfg post) \<longrightarrow>
                lookupNested (nested st') tgt = Some child)"
proof -
  from run obtain st1 where pre: "parseEntries bk cfg pre st = Inr st1"
    and rest: "parseEntries bk cfg ((key, v) # post) st1 = Inr st'"
    by (auto simp: parseEntries_append split: sum.splits)
  from rest show ?thesis
  proof (cases rule: parseEntries_ConsE)
    case marker
    with acc show ?thesis by simp
  next
    case skipped
    with acc show ?thesis by simp
  next
    case (accepted src' tgt' opt' sub st2)
    with acc have eq: "src' = src" "tgt' = tgt" "opt' = opt" by simp_all
    note sub = accepted(2) [unfolded eq]
    note att = accepted(3) [unfolded eq]
    note post = accepted(4)
    have a: "nextE st' = Some sub" if "tgt = []"
    proof -
      from att that have "nextE st2 = Some sub"
        by (auto simp: attach_empty split: if_splits)
      with parseEntries_nextE_kept [OF post] show ?thesis by simp
    qed
    have b: "lookupNested (nested st') tgt = Some sub"
      if "tgt \<noteq> []" "tgt \<noteq> ''__proto__''" "tgt \<notin> set (targetKeys bk cfg post)"
    proof -
      from attach_lookup [OF att, of tgt] that have "lookupNested (nested st2) tgt = Some sub"
        by simp
      with parseEntries_lookup_other [OF post that(3)] show ?thesis by simp
    qed
    from sub a b show ?thesis by blast
  qed
qed

lemma distinct_lookup_once:
  "distinct (map fst ps) \<Longrightarrow> map_of ps k = Some c \<Longrightarrow> length (filter (\<lambda>p. fst p = k) ps) = 1"
proof (induction ps)
  case Nil
  then show ?case by simp
next
  case (Cons p ps)
  show ?case
  proof (cases "fst p = k")
    case True
    have "fst q \<noteq> k" if "q \<in> set ps" for q
    proof
      assume "fst q = k"
      with that True have "fst p \<in> fst ` set ps" by (metis imageI)
      moreover from Cons.prems(1) have "fst p \<notin> fst ` set ps" by simp
      ultimately show False by blast
    qed
    then have "filter (\<lambda>p. fst p = k) ps = []"
      by (simp add: filter_empty_conv)
    with True show ?thesis by simp
  next
    case False
    with Cons show ?thesis by (cases p) auto
  qed
qed

text \<open>
  The levels of a parse. The loop runs on a mapping, on a mapping that is the element of
  a one-element array, and on an array that is the element of a one-element array (which
  is iterated by its indices); in each case the rest of \<^verbatim>\<open>_parseQuery\<close> runs on the
  entries with a new expression.
\<close>

lemma level_forms:
  assumes "q = JObject kvs \<or> q = JArray [JObject kvs]
           \<or> (q = JArray [JArray xs] \<and> kvs = arrayEntries xs)"
  shows "\<exists>flag. parseQueryRec bk cfg q (src, opt)
           = parseBody bk cfg (Expression src opt flag None None None) (JObject kvs)"
  using assms by auto

lemma body_child_appears:
  assumes run: "parseBody bk cfg e0 (JObject (pre @ (key, v) # post)) = Inr e"
    and fresh: "nextExpression e0 = None" "nestedExpressions e0 = None"
    and acc: "classify bk cfg key = Accepted src tgt opt"
    and last: "tgt = [] \<or> (tgt \<noteq> ''__proto__'' \<and> tgt \<notin> set (targetKeys bk cfg post))"
  shows "\<exists>child. parseQueryRec bk cfg v (src, opt) = Inr child \<and> appears e tgt child"
proof -
  from run obtain st where st: "parseEntries bk cfg (pre @ (key, v) # post) (startLevel e0) = Inr st"
    and fin: "finishLevel st = Inr e"
    by (auto split: sum.splits)
  from parseEntries_expr [OF st] fresh
  have fresh': "nextExpression (expr st) = None" "nestedExpressions (expr st) = None"
    by (simp_all add: sameButParams_def startLevel_simps)
  note f = finishLevel_Inr [OF fin fresh']
  from entry_child [OF st acc] obtain child where
    child: "parseQueryRec bk cfg v (src, opt) = Inr child"
    and nx: "tgt = [] \<Longrightarrow> nextE st = Some child"
    and ns: "tgt \<noteq> [] \<Longrightarrow> tgt \<noteq> ''__proto__'' \<Longrightarrow> tgt \<notin> set (targetKeys bk cfg post) \<Longrightarrow>
             lookupNested (nested st) tgt = Some child"
    by blast
  have "appears e tgt child"
  proof (cases "tgt = []")
    case True
    with nx f show ?thesis by (simp add: appears_def)
  next
    case False
    with last ns have look: "lookupNested (nested st) tgt = Some child" by blast
    then obtain ps where ps: "nested st = Some ps" "map_of ps tgt = Some child"
      by (auto simp: lookupNested_def split: option.splits)
    from parseEntries_distinct [OF st] ps(1) have "distinct (map fst ps)"
      by (simp add: distinctNested_def startLevel_simps)
    from distinct_lookup_once [OF this ps(2)] ps f False show ?thesis
      by (simp add: appears_def)
  qed
  with child show ?thesis by blast
qed

text \<open>The last accepted entry with a given target key.\<close>

lemma last_accepted_split:
  "tgt \<in> set (targetKeys bk cfg kvs) \<Longrightarrow>
   \<exists>pre key v post src opt.
     kvs = pre @ (key, v) # post \<and> classify bk cfg key = Accepted src tgt opt
     \<and> tgt \<notin> set (targetKeys bk cfg post)"
proof (induction kvs)
  case Nil
  then show ?case by (simp add: targetKeys_Nil)
next
  case (Cons x kvs)
  obtain key v where x: "x = (key, v)" by (cases x)
  show ?case
  proof (cases "tgt \<in> set (targetKeys bk cfg kvs)")
    case True
    from Cons.IH [OF True] obtain pre key' v' post src opt where
      "kvs = pre @ (key', v') # post" "classify bk cfg key' = Accepted src tgt opt"
      "tgt \<notin> set (targetKeys bk cfg post)"
      by blast
    then have "x # kvs = (x # pre) @ (key', v') # post
               \<and> classify bk cfg key' = Accepted src tgt opt
               \<and> tgt \<notin> set (targetKeys bk cfg post)"
      by simp
    then show ?thesis by blast
  next
    case False
    with Cons.prems obtain src opt where "classify bk cfg key = Accepted src tgt opt"
      by (auto simp: x targetKeys_Cons split: entryKind.splits)
    with False have "x # kvs = [] @ (key, v) # kvs
               \<and> classify bk cfg key = Accepted src tgt opt
               \<and> tgt \<notin> set (targetKeys bk cfg kvs)"
      by (simp add: x)
    then show ?thesis by blast
  qed
qed

lemma body_at_most_one_empty:
  assumes "parseBody bk cfg e0 (JObject kvs) = Inr e"
  shows "count_list (targetKeys bk cfg kvs) [] \<le> 1"
proof -
  from assms obtain st where "parseEntries bk cfg kvs (startLevel e0) = Inr st"
    by (auto split: sum.splits)
  from parseEntries_nextE_set [OF this] show ?thesis by (simp add: startLevel_simps)
qed

lemma body_empty_target_alone:
  assumes run: "parseBody bk cfg e0 (JObject kvs) = Inr e"
    and fresh: "nextExpression e0 = None" "nestedExpressions e0 = None"
    and some: "[] \<in> set (targetKeys bk cfg kvs)"
  shows "count_list (targetKeys bk cfg kvs) [] = 1 \<and> nestedExpressions e = None
         \<and> set (targetKeys bk cfg kvs) = {[]}"
proof -
  from run obtain st where st: "parseEntries bk cfg kvs (startLevel e0) = Inr st"
    and fin: "finishLevel st = Inr e"
    by (auto split: sum.splits)
  from parseEntries_expr [OF st] fresh
  have fresh': "nextExpression (expr st) = None" "nestedExpressions (expr st) = None"
    by (simp_all add: sameButParams_def startLevel_simps)
  note f = finishLevel_Inr [OF fin fresh']
  from some have "count_list (targetKeys bk cfg kvs) [] \<noteq> 0"
    by (simp add: count_list_0_iff)
  with body_at_most_one_empty [OF run] have one: "count_list (targetKeys bk cfg kvs) [] = 1"
    by simp
  from parseEntries_nextE_set [OF st] some have "nextE st \<noteq> None"
    by (simp add: startLevel_simps)
  with f have none: "nested st = None" by auto
  with parseEntries_nested_set [OF st] have "\<forall>t \<in> set (targetKeys bk cfg kvs). t = []"
    by (simp add: startLevel_simps)
  with some have "set (targetKeys bk cfg kvs) = {[]}" by auto
  with one none f show ?thesis by simp
qed

text \<open>
  A second accepted entry with the empty target makes the level fail with
  \<open>MultipleEmptyTargets\<close> when nothing before it and nothing in it fails, whatever
  follows it.
\<close>

lemma body_multiple:
  assumes reg: "regular bk cfg (pre @ [(key, v)])"
    and acc: "classify bk cfg key = Accepted src [] opt"
    and first: "[] \<in> set (targetKeys bk cfg pre)"
  shows "parseBody bk cfg e0 (JObject (pre @ (key, v) # post)) = Inl MultipleEmptyTargets"
proof -
  from first have "count_list (targetKeys bk cfg pre) [] \<noteq> 0"
    by (simp add: count_list_0_iff)
  with acc have "2 \<le> count_list (targetKeys bk cfg (pre @ [(key, v)])) []"
    by (simp add: targetKeys_append targetKeys_Cons targetKeys_Nil)
  with parseEntries_regular [OF reg, of "startLevel e0"]
  have "parseEntries bk cfg (pre @ [(key, v)]) (startLevel e0) = Inl MultipleEmptyTargets"
    by (simp add: startLevel_simps)
  then have "parseEntries bk cfg ((pre @ [(key, v)]) @ post) (startLevel e0)
             = Inl MultipleEmptyTargets"
    unfolding parseEntries_append [of bk cfg "pre @ [(key, v)]" post] by simp
  then show ?thesis by simp
qed

lemma body_single:
  assumes reg: "regular bk cfg kvs"
    and only: "targetKeys bk cfg kvs = [[]]"
  shows "succeeds (parseBody bk cfg e0 (JObject kvs))"
proof -
  from parseEntries_regular [OF reg, of "startLevel e0"] only
  obtain st where st: "parseEntries bk cfg kvs (startLevel e0) = Inr st"
    by (auto simp: startLevel_simps succeeds_def split: sum.splits)
  from parseEntries_nested_set [OF st] only have "nested st = None"
    by (simp add: startLevel_simps)
  with finishLevel_succeeds [of st] st show ?thesis by simp
qed

text \<open>
  Claim C1, as amended. A level is a mapping, a mapping wrapped in a one-element array, or
  an array inside a one-element array (iterated by its indices), at any depth: the child
  found below is the parse of the entry's value, to which the same statement applies.
  On every level of a successful parse, an accepted entry (not the parameter marker, not
  filtered as a built-in key, not dropped by the matchers) whose target key is empty is
  the only accepted entry of the level with an empty target, and its child is the next
  expression. For every non-empty target key other than \<^verbatim>\<open>__proto__\<close> that an accepted
  entry of the level has, the nested object has exactly one entry under that key, and it
  holds the child of the last accepted entry of the level with that target key; so an
  accepted entry has its own child there whenever no later accepted entry of the level
  repeats its target key. The exported function parses with the normalised options and
  the empty context.
\<close>

theorem accepted_entry_appears:
  "((q = JObject kvs \<or> q = JArray [JObject kvs]
       \<or> (q = JArray [JArray xs] \<and> kvs = arrayEntries xs))
      \<and> parseQueryRec bk cfg q ctx = Inr e
      \<and> kvs = pre @ (key, v) # post
      \<and> classify bk cfg key = Accepted src tgt opt
    \<longrightarrow> (tgt = [] \<or> (tgt \<noteq> ''__proto__'' \<and> tgt \<notin> set (targetKeys bk cfg post)) \<longrightarrow>
          (\<exists>child. parseQueryRec bk cfg v (src, opt) = Inr child \<and> appears e tgt child))
        \<and> (tgt = [] \<longrightarrow> count_list (targetKeys bk cfg kvs) [] = 1)
        \<and> (tgt \<noteq> [] \<and> tgt \<noteq> ''__proto__'' \<longrightarrow>
          (\<exists>pre' key' v' post' src' opt' child'.
              kvs = pre' @ (key', v') # post'
              \<and> classify bk cfg key' = Accepted src' tgt opt'
              \<and> tgt \<notin> set (targetKeys bk cfg post')
              \<and> parseQueryRec bk cfg v' (src', opt') = Inr child'
              \<and> appears e tgt child')))
   \<and> (parseQuery bk q opts = Inr e \<longrightarrow>
        parseQueryRec bk (normalise opts) q ([], False) = Inr e)"
proof -
  have top: "parseQueryRec bk (normalise opts) q ([], False) = Inr e"
    if "parseQuery bk q opts = Inr e"
    using that by (simp add: parseQuery_def split: if_splits)
  have level: "(tgt = [] \<or> (tgt \<noteq> ''__proto__'' \<and> tgt \<notin> set (targetKeys bk cfg post)) \<longrightarrow>
          (\<exists>child. parseQueryRec bk cfg v (src, opt) = Inr child \<and> appears e tgt child))
        \<and> (tgt = [] \<longrightarrow> count_list (targetKeys bk cfg kvs) [] = 1)
        \<and> (tgt \<noteq> [] \<and> tgt \<noteq> ''__proto__'' \<longrightarrow>
          (\<exists>pre' key' v' post' src' opt' child'.
              kvs = pre' @ (key', v') # post'
              \<and> classify bk cfg key' = Accepted src' tgt opt'
              \<and> tgt \<notin> set (targetKeys bk cfg post')
              \<and> parseQueryRec bk cfg v' (src', opt') = Inr child'
              \<and> appears e tgt child'))"
    if a: "(q = JObject kvs \<or> q = JArray [JObject kvs]
       \<or> (q = JArray [JArray xs] \<and> kvs = arrayEntries xs))
      \<and> parseQueryRec bk cfg q ctx = Inr e
      \<and> kvs = pre @ (key, v) # post
      \<and> classify bk cfg key = Accepted src tgt opt"
  proof -
    obtain s0 o0 where ctx: "ctx = (s0, o0)" by (cases ctx)
    from a level_forms [of q kvs xs bk cfg s0 o0] obtain flag where
      run: "parseBody bk cfg (Expression s0 o0 flag None None None) (JObject kvs) = Inr e"
      by (auto simp: ctx)
    let ?e0 = "Expression s0 o0 flag None None None"
    from a have kvs: "kvs = pre @ (key, v) # post"
      and acc: "classify bk cfg key = Accepted src tgt opt"
      by simp_all
    from acc have inkeys: "tgt \<in> set (targetKeys bk cfg kvs)"
      by (simp add: kvs targetKeys_append targetKeys_Cons)
    have one: "\<exists>child. parseQueryRec bk cfg v (src, opt) = Inr child \<and> appears e tgt child"
      if "tgt = [] \<or> (tgt \<noteq> ''__proto__'' \<and> tgt \<notin> set (targetKeys bk cfg post))"
      using body_child_appears [OF run [unfolded kvs] _ _ acc that] by simp
    have two: "count_list (targetKeys bk cfg kvs) [] = 1" if "tgt = []"
      using body_empty_target_alone [OF run] inkeys that by simp
    have three: "\<exists>pre' key' v' post' src' opt' child'.
              kvs = pre' @ (key', v') # post'
              \<and> classify bk cfg key' = Accepted src' tgt opt'
              \<and> tgt \<notin> set (targetKeys bk cfg post')
              \<and> parseQueryRec bk cfg v' (src', opt') = Inr child'
              \<and> appears e tgt child'"
      if t: "tgt \<noteq> [] \<and> tgt \<noteq> ''__proto__''"
    proof -
      from last_accepted_split [OF inkeys] obtain pre' key' v' post' src' opt' where
        sp: "kvs = pre' @ (key', v') # post'"
        and acc': "classify bk cfg key' = Accepted src' tgt opt'"
        and lst: "tgt \<notin> set (targetKeys bk cfg post')"
        by blast
      from t lst have "tgt = [] \<or> (tgt \<noteq> ''__proto__'' \<and> tgt \<notin> set (targetKeys bk cfg post'))"
        by simp
      from body_child_appears [OF run [unfolded sp] _ _ acc' this]
      obtain child' where "parseQueryRec bk cfg v' (src', opt') = Inr child'"
        "appears e tgt child'"
        by auto
      with sp acc' lst show ?thesis by blast
    qed
    from one two three show ?thesis by blast
  qed
  from top level show ?thesis by blast
qed

theorem accepted_entry_appears_witness:
  "parseQueryRec (builtInKeys standardHost) (normalise defaultOptions)
     (JArray [JObject [(''()'', JNumber 1), (''a=>x'', JBool True), (''movies=>m'', JBool True),
                       (''b=>x'', JBool True), (''toString'', JBool True)]])
     (''root'', False)
   = Inr (Expression ''root'' False True (Some (JNumber 1)) None
            (Some [(''x'', Expression ''b'' False False None None None),
                   (''m'', Expression ''movies'' False False None None None)]))
   \<and> classify (builtInKeys standardHost) (normalise defaultOptions) ''b=>x''
       = Accepted ''b'' ''x'' False
   \<and> ''x'' \<notin> set (targetKeys (builtInKeys standardHost) (normalise defaultOptions)
                     [(''toString'', JBool True)])
   \<and> (\<exists>child. parseQueryRec (builtInKeys standardHost) (normalise defaultOptions)
                  (JBool True) (''b'', False) = Inr child
        \<and> appears (Expression ''root'' False True (Some (JNumber 1)) None
            (Some [(''x'', Expression ''b'' False False None None None),
                   (''m'', Expression ''movies'' False False None None None)])) ''x'' child)
   \<and> classify (builtInKeys standardHost) (normalise defaultOptions) ''a=>x''
       = Accepted ''a'' ''x'' False
   \<and> (\<exists>pre' key' v' post' src' opt' child'.
         [(''()'', JNumber 1), (''a=>x'', JBool True), (''movies=>m'', JBool True),
          (''b=>x'', JBool True), (''toString'', JBool True)] = pre' @ (key', v') # post'
         \<and> classify (builtInKeys standardHost) (normalise defaultOptions) key'
             = Accepted src' ''x'' opt'
         \<and> ''x'' \<notin> set (targetKeys (builtInKeys standardHost) (normalise defaultOptions) post')
         \<and> parseQueryRec (builtInKeys standardHost) (normalise defaultOptions) v' (src', opt')
             = Inr child'
         \<and> appears (Expression ''root'' False True (Some (JNumber 1)) None
            (Some [(''x'', Expression ''b'' False False None None None),
                   (''m'', Expression ''movies'' False False None None None)])) ''x'' child')
   \<and> parseQuery (builtInKeys standardHost) (JObject [(''reverse=>'', JBool True)]) defaultOptions
      = Inr (Expression [] False False None
              (Some (Expression ''reverse'' False False None None None)) None)
   \<and> classify (builtInKeys standardHost) (normalise defaultOptions) ''reverse=>''
       = Accepted ''reverse'' [] False
   \<and> (\<exists>child. parseQueryRec (builtInKeys standardHost) (normalise defaultOptions)
                  (JBool True) (''reverse'', False) = Inr child
        \<and> appears (Expression [] False False None
              (Some (Expression ''reverse'' False False None None None)) None) [] child)
   \<and> count_list (targetKeys (builtInKeys standardHost) (normalise defaultOptions)
                    [(''reverse=>'', JBool True)]) [] = 1
   \<and> arrayEntries [JBool True, JBool True] = [(''0'', JBool True)] @ (''1'', JBool True) # []
   \<and> parseQueryRec (builtInKeys standardHost) (normalise defaultOptions)
        (JArray [JArray [JBool True, JBool True]]) ([], False)
      = Inr (Expression [] False True None None
               (Some [(''0'', Expression ''0'' False False None None None),
                      (''1'', Expression ''1'' False False None None None)]))
   \<and> (\<exists>child. parseQueryRec (builtInKeys standardHost) (normalise defaultOptions)
                  (JBool True) (''1'', False) = Inr child
        \<and> appears (Expression [] False True None None
               (Some [(''0'', Expression ''0'' False False None None None),
                      (''1'', Expression ''1'' False False None None None)])) ''1'' child)"
proof -
  let ?bk = "builtInKeys standardHost"
  let ?cfg = "normalise defaultOptions"
  let ?kvs = "[(''()'', JNumber 1), (''a=>x'', JBool True), (''movies=>m'', JBool True),
               (''b=>x'', JBool True), (''toString'', JBool True)]"
  let ?e1 = "Expression ''root'' False True (Some (JNumber 1)) None
            (Some [(''x'', Expression ''b'' False False None None None),
                   (''m'', Expression ''movies'' False False None None None)])"
  let ?e2 = "Expression [] False False None
              (Some (Expression ''reverse'' False False None None None)) None"
  let ?e3 = "Expression [] False True None None
               (Some [(''0'', Expression ''0'' False False None None None),
                      (''1'', Expression ''1'' False False None None None)])"
  have r1: "parseQueryRec ?bk ?cfg (JArray [JObject ?kvs]) (''root'', False) = Inr ?e1"
    by code_simp
  have cb: "classify ?bk ?cfg ''b=>x'' = Accepted ''b'' ''x'' False" by code_simp
  have ca: "classify ?bk ?cfg ''a=>x'' = Accepted ''a'' ''x'' False" by code_simp
  have lb: "''x'' \<notin> set (targetKeys ?bk ?cfg [(''toString'', JBool True)])" by code_simp
  have r2: "parseQuery ?bk (JObject [(''reverse=>'', JBool True)]) defaultOptions = Inr ?e2"
    by code_simp
  have cr: "classify ?bk ?cfg ''reverse=>'' = Accepted ''reverse'' [] False" by code_simp
  have ae: "arrayEntries [JBool True, JBool True] = [(''0'', JBool True)] @ (''1'', JBool True) # []"
    by code_simp
  have r3: "parseQueryRec ?bk ?cfg (JArray [JArray [JBool True, JBool True]]) ([], False)
            = Inr ?e3"
    by code_simp
  have c1: "classify ?bk ?cfg ''1'' = Accepted ''1'' ''1'' False" by code_simp
  have l1: "''1'' \<noteq> [] \<and> ''1'' \<noteq> ''__proto__'' \<and> ''1'' \<notin> set (targetKeys ?bk ?cfg [])"
    by code_simp
  have nx: "''x'' \<noteq> [] \<and> ''x'' \<noteq> ''__proto__''" by simp
  have hb: "(JArray [JObject ?kvs] = JObject ?kvs \<or> JArray [JObject ?kvs] = JArray [JObject ?kvs]
       \<or> (JArray [JObject ?kvs] = JArray [JArray []] \<and> ?kvs = arrayEntries []))
      \<and> parseQueryRec ?bk ?cfg (JArray [JObject ?kvs]) (''root'', False) = Inr ?e1
      \<and> ?kvs = [(''()'', JNumber 1), (''a=>x'', JBool True), (''movies=>m'', JBool True)]
                @ (''b=>x'', JBool True) # [(''toString'', JBool True)]
      \<and> classify ?bk ?cfg ''b=>x'' = Accepted ''b'' ''x'' False"
    using r1 cb by simp
  note B = accepted_entry_appears [where q = "JArray [JObject ?kvs]" and kvs = ?kvs and xs = "[]"
      and bk = ?bk and cfg = ?cfg and ctx = "(''root'', False)" and e = ?e1
      and pre = "[(''()'', JNumber 1), (''a=>x'', JBool True), (''movies=>m'', JBool True)]"
      and key = "''b=>x''" and v = "JBool True" and post = "[(''toString'', JBool True)]"
      and src = "''b''" and tgt = "''x''" and opt = False and opts = defaultOptions,
      THEN conjunct1, THEN mp, OF hb]
  from B [THEN conjunct1] lb
  have wb: "\<exists>child. parseQueryRec ?bk ?cfg (JBool True) (''b'', False) = Inr child
        \<and> appears ?e1 ''x'' child"
    by simp
  have ha: "(JArray [JObject ?kvs] = JObject ?kvs \<or> JArray [JObject ?kvs] = JArray [JObject ?kvs]
       \<or> (JArray [JObject ?kvs] = JArray [JArray []] \<and> ?kvs = arrayEntries []))
      \<and> parseQueryRec ?bk ?cfg (JArray [JObject ?kvs]) (''root'', False) = Inr ?e1
      \<and> ?kvs = [(''()'', JNumber 1)] @ (''a=>x'', JBool True)
                # [(''movies=>m'', JBool True), (''b=>x'', JBool True), (''toString'', JBool True)]
      \<and> classify ?bk ?cfg ''a=>x'' = Accepted ''a'' ''x'' False"
    using r1 ca by simp
  note A = accepted_entry_appears [where q = "JArray [JObject ?kvs]" and kvs = ?kvs and xs = "[]"
      and bk = ?bk and cfg = ?cfg and ctx = "(''root'', False)" and e = ?e1
      and pre = "[(''()'', JNumber 1)]"
      and key = "''a=>x''" and v = "JBool True"
      and post = "[(''movies=>m'', JBool True), (''b=>x'', JBool True), (''toString'', JBool True)]"
      and src = "''a''" and tgt = "''x''" and opt = False and opts = defaultOptions,
      THEN conjunct1, THEN mp, OF ha]
  from A [THEN conjunct2, THEN conjunct2, THEN mp, OF nx]
  have wa: "\<exists>pre' key' v' post' src' opt' child'.
         ?kvs = pre' @ (key', v') # post'
         \<and> classify ?bk ?cfg key' = Accepted src' ''x'' opt'
         \<and> ''x'' \<notin> set (targetKeys ?bk ?cfg post')
         \<and> parseQueryRec ?bk ?cfg v' (src', opt') = Inr child'
         \<and> appears ?e1 ''x'' child'" .
  from accepted_entry_appears [where q = "JObject [(''reverse=>'', JBool True)]"
      and bk = ?bk and e = ?e2 and opts = defaultOptions, THEN conjunct2, THEN mp, OF r2]
  have r2': "parseQueryRec ?bk ?cfg (JObject [(''reverse=>'', JBool True)]) ([], False) = Inr ?e2" .
  have hr: "(JObject [(''reverse=>'', JBool True)] = JObject [(''reverse=>'', JBool True)]
       \<or> JObject [(''reverse=>'', JBool True)] = JArray [JObject [(''reverse=>'', JBool True)]]
       \<or> (JObject [(''reverse=>'', JBool True)] = JArray [JArray []]
           \<and> [(''reverse=>'', JBool True)] = arrayEntries []))
      \<and> parseQueryRec ?bk ?cfg (JObject [(''reverse=>'', JBool True)]) ([], False) = Inr ?e2
      \<and> [(''reverse=>'', JBool True)] = [] @ (''reverse=>'', JBool True) # []
      \<and> classify ?bk ?cfg ''reverse=>'' = Accepted ''reverse'' [] False"
    using r2' cr by simp
  note R = accepted_entry_appears [where q = "JObject [(''reverse=>'', JBool True)]"
      and kvs = "[(''reverse=>'', JBool True)]" and xs = "[]"
      and bk = ?bk and cfg = ?cfg and ctx = "([], False)" and e = ?e2
      and pre = "[]" and key = "''reverse=>''" and v = "JBool True" and post = "[]"
      and src = "''reverse''" and tgt = "[]" and opt = False and opts = defaultOptions,
      THEN conjunct1, THEN mp, OF hr]
  from R [THEN conjunct1]
  have wr: "\<exists>child. parseQueryRec ?bk ?cfg (JBool True) (''reverse'', False) = Inr child
        \<and> appears ?e2 [] child"
    by simp
  from R [THEN conjunct2, THEN conjunct1]
  have wc: "count_list (targetKeys ?bk ?cfg [(''reverse=>'', JBool True)]) [] = 1"
    by simp
  have h1: "(JArray [JArray [JBool True, JBool True]] = JObject (arrayEntries [JBool True, JBool True])
       \<or> JArray [JArray [JBool True, JBool True]]
           = JArray [JObject (arrayEntries [JBool True, JBool True])]
       \<or> (JArray [JArray [JBool True, JBool True]] = JArray [JArray [JBool True, JBool True]]
           \<and> arrayEntries [JBool True, JBool True] = arrayEntries [JBool True, JBool True]))
      \<and> parseQueryRec ?bk ?cfg (JArray [JArray [JBool True, JBool True]]) ([], False) = Inr ?e3
      \<and> arrayEntries [JBool True, JBool True] = [(''0'', JBool True)] @ (''1'', JBool True) # []
      \<and> classify ?bk ?cfg ''1'' = Accepted ''1'' ''1'' False"
    using r3 ae c1 by simp
  note I = accepted_entry_appears [where q = "JArray [JArray [JBool True, JBool True]]"
      and kvs = "arrayEntries [JBool True, JBool True]" and xs = "[JBool True, JBool True]"
      and bk = ?bk and cfg = ?cfg and ctx = "([], False)" and e = ?e3
      and pre = "[(''0'', JBool True)]" and key = "''1''" and v = "JBool True" and post = "[]"
      and src = "''1''" and tgt = "''1''" and opt = False and opts = defaultOptions,
      THEN conjunct1, THEN mp, OF h1]
  from I [THEN conjunct1] l1
  have wi: "\<exists>child. parseQueryRec ?bk ?cfg (JBool True) (''1'', False) = Inr child
        \<and> appears ?e3 ''1'' child"
    by simp
  show ?thesis
    using r1 cb lb wb ca wa r2 cr wr wc ae r3 wi by (intro conjI)
qed

text \<open>
  The claim as stated fails where two accepted entries share a target key: in
  \<^verbatim>\<open>parseQuery({"a=>x": true, "b=>x": true})\<close> both entries are accepted, and the child
  of the first does not appear in the result.
\<close>

theorem accepted_entry_appears_counterexample:
  "parseQuery (builtInKeys standardHost)
     (JObject [(''a=>x'', JBool True), (''b=>x'', JBool True)]) defaultOptions
   = Inr (Expression [] False False None None
            (Some [(''x'', Expression ''b'' False False None None None)]))
   \<and> classify (builtInKeys standardHost) (normalise defaultOptions) ''a=>x''
       = Accepted ''a'' ''x'' False
   \<and> parseQueryRec (builtInKeys standardHost) (normalise defaultOptions) (JBool True)
        (''a'', False)
       = Inr (Expression ''a'' False False None None None)
   \<and> \<not> appears (Expression [] False False None None
                  (Some [(''x'', Expression ''b'' False False None None None)]))
          ''x'' (Expression ''a'' False False None None None)"
  by code_simp

text \<open>
  A target key \<^verbatim>\<open>__proto__\<close> leaves no own property in the nested object.
\<close>

lemma proto_target_not_stored:
  "parseQuery (builtInKeys standardHost) (JObject [(''a=>__proto__'', JBool True)]) defaultOptions
   = Inr (Expression [] False False None None (Some []))"
  by code_simp

text \<open>
  Claim C3, as amended. On every level (a mapping, a mapping wrapped in a one-element
  array, an array inside a one-element array) with two or more accepted entries of empty
  target the parse never succeeds. It fails with \<open>MultipleEmptyTargets\<close> at an accepted
  entry of empty target that follows another one, provided every key up to and including
  that entry parses and every accepted value up to and including it parses as a
  sub-query, whatever follows; an earlier error is thrown instead, as the invalid value in
  \<^verbatim>\<open>{"a=>": true, "b=>": 5}\<close> is. On a successful parse an accepted entry of empty
  target is the only one of its level, its child is the next expression and there are no
  nested expressions; and a level whose keys and accepted values parse and whose only
  accepted entry has the empty target does parse. With the default options,
  \<^verbatim>\<open>parseQuery({"a=>": {x: true}, "b=>": {y: true}})\<close> and
  \<^verbatim>\<open>parseQuery({"a=>": true, "b=>": true, c: 5})\<close> fail with \<open>MultipleEmptyTargets\<close>.
\<close>

theorem multiple_empty_targets:
  "((q = JObject kvs \<or> q = JArray [JObject kvs]
       \<or> (q = JArray [JArray xs] \<and> kvs = arrayEntries xs)) \<longrightarrow>
      (kvs = pre @ (key, v) # post \<and> regular bk cfg (pre @ [(key, v)])
         \<and> classify bk cfg key = Accepted src [] opt \<and> [] \<in> set (targetKeys bk cfg pre) \<longrightarrow>
           parseQueryRec bk cfg q ctx = Inl MultipleEmptyTargets)
      \<and> (2 \<le> count_list (targetKeys bk cfg kvs) [] \<longrightarrow>
           \<not> succeeds (parseQueryRec bk cfg q ctx))
      \<and> (kvs = pre @ (key, v) # post \<and> classify bk cfg key = Accepted src [] opt
         \<and> parseQueryRec bk cfg q ctx = Inr e \<longrightarrow>
           (\<exists>child. parseQueryRec bk cfg v (src, opt) = Inr child
                    \<and> nextExpression e = Some child)
           \<and> nestedExpressions e = None
           \<and> [] \<notin> set (targetKeys bk cfg pre) \<and> [] \<notin> set (targetKeys bk cfg post))
      \<and> (regular bk cfg kvs \<and> targetKeys bk cfg kvs = [[]] \<longrightarrow>
           succeeds (parseQueryRec bk cfg q ctx)))
   \<and> (q \<noteq> JUndefined \<longrightarrow>
        parseQuery bk q opts = parseQueryRec bk (normalise opts) q ([], False))
   \<and> parseQuery (builtInKeys standardHost)
        (JObject [(''a=>'', JObject [(''x'', JBool True)]),
                  (''b=>'', JObject [(''y'', JBool True)])]) defaultOptions
      = Inl MultipleEmptyTargets
   \<and> parseQuery (builtInKeys standardHost)
        (JObject [(''a=>'', JBool True), (''b=>'', JBool True), (''c'', JNumber 5)])
        defaultOptions
      = Inl MultipleEmptyTargets
   \<and> parseQuery (builtInKeys standardHost)
        (JObject [(''a=>'', JObject [(''x'', JBool True)])]) defaultOptions
      = Inr (Expression [] False False None
               (Some (Expression ''a'' False False None None
                        (Some [(''x'', Expression ''x'' False False None None None)])))
               None)"
proof -
  have level: "(kvs = pre @ (key, v) # post \<and> regular bk cfg (pre @ [(key, v)])
         \<and> classify bk cfg key = Accepted src [] opt \<and> [] \<in> set (targetKeys bk cfg pre) \<longrightarrow>
           parseQueryRec bk cfg q ctx = Inl MultipleEmptyTargets)
      \<and> (2 \<le> count_list (targetKeys bk cfg kvs) [] \<longrightarrow>
           \<not> succeeds (parseQueryRec bk cfg q ctx))
      \<and> (kvs = pre @ (key, v) # post \<and> classify bk cfg key = Accepted src [] opt
         \<and> parseQueryRec bk cfg q ctx = Inr e \<longrightarrow>
           (\<exists>child. parseQueryRec bk cfg v (src, opt) = Inr child
                    \<and> nextExpression e = Some child)
           \<and> nestedExpressions e = None
           \<and> [] \<notin> set (targetKeys bk cfg pre) \<and> [] \<notin> set (targetKeys bk cfg post))
      \<and> (regular bk cfg kvs \<and> targetKeys bk cfg kvs = [[]] \<longrightarrow>
           succeeds (parseQueryRec bk cfg q ctx))"
    if form: "q = JObject kvs \<or> q = JArray [JObject kvs]
       \<or> (q = JArray [JArray xs] \<and> kvs = arrayEntries xs)"
  proof -
    obtain s0 o0 where ctx: "ctx = (s0, o0)" by (cases ctx)
    from level_forms [OF form, of bk cfg s0 o0] obtain flag where
      body: "parseQueryRec bk cfg q ctx
             = parseBody bk cfg (Expression s0 o0 flag None None None) (JObject kvs)"
      by (auto simp: ctx)
    let ?e0 = "Expression s0 o0 flag None None None"
    have one: "parseQueryRec bk cfg q ctx = Inl MultipleEmptyTargets"
      if "kvs = pre @ (key, v) # post \<and> regular bk cfg (pre @ [(key, v)])
         \<and> classify bk cfg key = Accepted src [] opt \<and> [] \<in> set (targetKeys bk cfg pre)"
      using that body_multiple [of bk cfg pre key v src opt ?e0 post] by (simp add: body)
    have two: "\<not> succeeds (parseQueryRec bk cfg q ctx)"
      if many: "2 \<le> count_list (targetKeys bk cfg kvs) []"
    proof
      assume "succeeds (parseQueryRec bk cfg q ctx)"
      then obtain e' where "parseBody bk cfg ?e0 (JObject kvs) = Inr e'"
        unfolding body by (auto simp: succeeds_def split: sum.splits)
      from body_at_most_one_empty [OF this] many show False by simp
    qed
    have three: "(\<exists>child. parseQueryRec bk cfg v (src, opt) = Inr child
                    \<and> nextExpression e = Some child)
           \<and> nestedExpressions e = None
           \<and> [] \<notin> set (targetKeys bk cfg pre) \<and> [] \<notin> set (targetKeys bk cfg post)"
      if a: "kvs = pre @ (key, v) # post \<and> classify bk cfg key = Accepted src [] opt
         \<and> parseQueryRec bk cfg q ctx = Inr e"
    proof -
      from a have kvs: "kvs = pre @ (key, v) # post"
        and acc: "classify bk cfg key = Accepted src [] opt"
        and run0: "parseQueryRec bk cfg q ctx = Inr e"
        by simp_all
      from run0 have run: "parseBody bk cfg ?e0 (JObject kvs) = Inr e"
        unfolding body .
      from acc have tk: "targetKeys bk cfg kvs
                         = targetKeys bk cfg pre @ [] # targetKeys bk cfg post"
        by (simp add: kvs targetKeys_append targetKeys_Cons)
      then have "[] \<in> set (targetKeys bk cfg kvs)" by simp
      from body_empty_target_alone [OF run _ _ this]
      have cnt: "count_list (targetKeys bk cfg kvs) [] = 1"
        and none: "nestedExpressions e = None"
        by simp_all
      from cnt have "count_list (targetKeys bk cfg pre) [] = 0"
        and "count_list (targetKeys bk cfg post) [] = 0"
        by (simp_all add: tk)
      then have alone: "[] \<notin> set (targetKeys bk cfg pre) \<and> [] \<notin> set (targetKeys bk cfg post)"
        by (simp add: count_list_0_iff)
      from body_child_appears [OF run [unfolded kvs] _ _ acc]
      obtain child where "parseQueryRec bk cfg v (src, opt) = Inr child" "appears e [] child"
        by auto
      then have "\<exists>child. parseQueryRec bk cfg v (src, opt) = Inr child
                    \<and> nextExpression e = Some child"
        by (auto simp: appears_def)
      with none alone show ?thesis by blast
    qed
    have four: "succeeds (parseQueryRec bk cfg q ctx)"
      if "regular bk cfg kvs \<and> targetKeys bk cfg kvs = [[]]"
      using that body_single [of bk cfg kvs ?e0] by (simp add: body)
    from one two three four show ?thesis by blast
  qed
  have top: "parseQuery bk q opts = parseQueryRec bk (normalise opts) q ([], False)"
    if "q \<noteq> JUndefined"
    using that by (simp add: parseQuery_def)
  have ex1: "parseQuery (builtInKeys standardHost)
        (JObject [(''a=>'', JObject [(''x'', JBool True)]),
                  (''b=>'', JObject [(''y'', JBool True)])]) defaultOptions
      = Inl MultipleEmptyTargets"
    by code_simp
  have ex2: "parseQuery (builtInKeys standardHost)
        (JObject [(''a=>'', JBool True), (''b=>'', JBool True), (''c'', JNumber 5)])
        defaultOptions
      = Inl MultipleEmptyTargets"
    by code_simp
  have ex3: "parseQuery (builtInKeys standardHost)
        (JObject [(''a=>'', JObject [(''x'', JBool True)])]) defaultOptions
      = Inr (Expression [] False False None
               (Some (Expression ''a'' False False None None
                        (Some [(''x'', Expression ''x'' False False None None None)])))
               None)"
    by code_simp
  show ?thesis
    using level top ex1 ex2 ex3 by (intro conjI impI) blast+
qed

theorem multiple_empty_targets_witness:
  "regular (builtInKeys standardHost) (normalise defaultOptions)
     ([(''a=>'', JBool True), (''toString'', JNumber 3)] @ [(''b?=>'', JArray [JBool True])])
   \<and> classify (builtInKeys standardHost) (normalise defaultOptions) ''b?=>''
       = Accepted ''b'' [] True
   \<and> [] \<in> set (targetKeys (builtInKeys standardHost) (normalise defaultOptions)
                  [(''a=>'', JBool True), (''toString'', JNumber 3)])
   \<and> parseQueryRec (builtInKeys standardHost) (normalise defaultOptions)
       (JArray [JObject [(''a=>'', JBool True), (''toString'', JNumber 3),
                         (''b?=>'', JArray [JBool True]), (''c'', JNumber 5)]])
       (''root'', False)
      = Inl MultipleEmptyTargets
   \<and> 2 \<le> count_list (targetKeys (builtInKeys standardHost) (normalise defaultOptions)
          [(''a=>'', JBool True), (''toString'', JNumber 3),
           (''b?=>'', JArray [JBool True]), (''c'', JNumber 5)]) []
   \<and> \<not> succeeds (parseQueryRec (builtInKeys standardHost) (normalise defaultOptions)
       (JArray [JObject [(''a=>'', JBool True), (''toString'', JNumber 3),
                         (''b?=>'', JArray [JBool True]), (''c'', JNumber 5)]])
       (''root'', False))
   \<and> classify (builtInKeys standardHost) (normalise defaultOptions) ''reverse=>''
       = Accepted ''reverse'' [] False
   \<and> parseQueryRec (builtInKeys standardHost) (normalise defaultOptions)
       (JArray [JObject [(''()'', JNull), (''reverse=>'', JBool True), (''valueOf'', JNull)]])
       (''root'', False)
      = Inr (Expression ''root'' False True (Some JNull)
               (Some (Expression ''reverse'' False False None None None)) None)
   \<and> (\<exists>child. parseQueryRec (builtInKeys standardHost) (normalise defaultOptions)
           (JBool True) (''reverse'', False) = Inr child
         \<and> nextExpression (Expression ''root'' False True (Some JNull)
               (Some (Expression ''reverse'' False False None None None)) None) = Some child)
   \<and> regular (builtInKeys standardHost) (normalise defaultOptions)
        [(''()'', JNull), (''reverse=>'', JBool True), (''valueOf'', JNull)]
   \<and> targetKeys (builtInKeys standardHost) (normalise defaultOptions)
        [(''()'', JNull), (''reverse=>'', JBool True), (''valueOf'', JNull)] = [[]]
   \<and> succeeds (parseQueryRec (builtInKeys standardHost) (normalise defaultOptions)
       (JArray [JObject [(''()'', JNull), (''reverse=>'', JBool True), (''valueOf'', JNull)]])
       (''root'', False))
   \<and> parseQuery (builtInKeys standardHost) (JBool True) defaultOptions
      = parseQueryRec (builtInKeys standardHost) (normalise defaultOptions) (JBool True)
          ([], False)"
proof -
  let ?bk = "builtInKeys standardHost"
  let ?cfg = "normalise defaultOptions"
  let ?pre = "[(''a=>'', JBool True), (''toString'', JNumber 3)]"
  let ?kvs = "[(''a=>'', JBool True), (''toString'', JNumber 3),
               (''b?=>'', JArray [JBool True]), (''c'', JNumber 5)]"
  let ?kvs2 = "[(''()'', JNull), (''reverse=>'', JBool True), (''valueOf'', JNull)]"
  let ?e2 = "Expression ''root'' False True (Some JNull)
               (Some (Expression ''reverse'' False False None None None)) None"
  have form: "JArray [JObject ?kvs] = JObject ?kvs \<or> JArray [JObject ?kvs] = JArray [JObject ?kvs]
       \<or> (JArray [JObject ?kvs] = JArray [JArray []] \<and> ?kvs = arrayEntries [])"
    by simp
  have form2: "JArray [JObject ?kvs2] = JObject ?kvs2
       \<or> JArray [JObject ?kvs2] = JArray [JObject ?kvs2]
       \<or> (JArray [JObject ?kvs2] = JArray [JArray []] \<and> ?kvs2 = arrayEntries [])"
    by simp
  have reg: "regular ?bk ?cfg (?pre @ [(''b?=>'', JArray [JBool True])])" by code_simp
  have cb: "classify ?bk ?cfg ''b?=>'' = Accepted ''b'' [] True" by code_simp
  have first: "[] \<in> set (targetKeys ?bk ?cfg ?pre)" by code_simp
  have two: "2 \<le> count_list (targetKeys ?bk ?cfg ?kvs) []" by code_simp
  have cr: "classify ?bk ?cfg ''reverse=>'' = Accepted ''reverse'' [] False" by code_simp
  have r2: "parseQueryRec ?bk ?cfg (JArray [JObject ?kvs2]) (''root'', False) = Inr ?e2"
    by code_simp
  have reg2: "regular ?bk ?cfg ?kvs2" by code_simp
  have only: "targetKeys ?bk ?cfg ?kvs2 = [[]]" by code_simp
  note L = multiple_empty_targets [where q = "JArray [JObject ?kvs]" and kvs = ?kvs
      and xs = "[]" and bk = ?bk and cfg = ?cfg and ctx = "(''root'', False)"
      and pre = ?pre and key = "''b?=>''" and v = "JArray [JBool True]"
      and post = "[(''c'', JNumber 5)]" and src = "''b''" and opt = True
      and opts = defaultOptions, THEN conjunct1, THEN mp, OF form]
  have h1: "?kvs = ?pre @ (''b?=>'', JArray [JBool True]) # [(''c'', JNumber 5)]
      \<and> regular ?bk ?cfg (?pre @ [(''b?=>'', JArray [JBool True])])
      \<and> classify ?bk ?cfg ''b?=>'' = Accepted ''b'' [] True
      \<and> [] \<in> set (targetKeys ?bk ?cfg ?pre)"
    using reg cb first by simp
  from L [THEN conjunct1, THEN mp, OF h1]
  have a: "parseQueryRec ?bk ?cfg (JArray [JObject ?kvs]) (''root'', False)
           = Inl MultipleEmptyTargets" .
  from L [THEN conjunct2, THEN conjunct1, THEN mp, OF two]
  have b: "\<not> succeeds (parseQueryRec ?bk ?cfg (JArray [JObject ?kvs]) (''root'', False))" .
  note M = multiple_empty_targets [where q = "JArray [JObject ?kvs2]" and kvs = ?kvs2
      and xs = "[]" and bk = ?bk and cfg = ?cfg and ctx = "(''root'', False)"
      and pre = "[(''()'', JNull)]" and key = "''reverse=>''" and v = "JBool True"
      and post = "[(''valueOf'', JNull)]" and src = "''reverse''" and opt = False
      and e = ?e2 and opts = defaultOptions, THEN conjunct1, THEN mp, OF form2]
  have h3: "?kvs2 = [(''()'', JNull)] @ (''reverse=>'', JBool True) # [(''valueOf'', JNull)]
      \<and> classify ?bk ?cfg ''reverse=>'' = Accepted ''reverse'' [] False
      \<and> parseQueryRec ?bk ?cfg (JArray [JObject ?kvs2]) (''root'', False) = Inr ?e2"
    using cr r2 by simp
  from M [THEN conjunct2, THEN conjunct2, THEN conjunct1, THEN mp, OF h3]
  have c: "\<exists>child. parseQueryRec ?bk ?cfg (JBool True) (''reverse'', False) = Inr child
         \<and> nextExpression ?e2 = Some child"
    by (rule conjunct1)
  have h4: "regular ?bk ?cfg ?kvs2 \<and> targetKeys ?bk ?cfg ?kvs2 = [[]]"
    using reg2 only by simp
  from M [THEN conjunct2, THEN conjunct2, THEN conjunct2, THEN mp, OF h4]
  have d: "succeeds (parseQueryRec ?bk ?cfg (JArray [JObject ?kvs2]) (''root'', False))" .
  have ne: "JBool True \<noteq> JUndefined" by simp
  from multiple_empty_targets [where q = "JBool True" and bk = ?bk and opts = defaultOptions,
      THEN conjunct2, THEN conjunct1, THEN mp, OF ne]
  have t: "parseQuery ?bk (JBool True) defaultOptions
           = parseQueryRec ?bk ?cfg (JBool True) ([], False)" .
  show ?thesis
    using reg cb first a two b cr r2 c reg2 only d t by (intro conjI)
qed

text \<open>
  The claim as stated fails where another error comes first: both entries of
  \<^verbatim>\<open>{"a=>": true, "b=>": 5}\<close> resolve to the empty target, and the parse fails on the
  value of the second before the target is looked at.
\<close>

theorem multiple_empty_targets_counterexample:
  "parseKey ''a=>'' = Inr (''a'', [], False) \<and> parseKey ''b=>'' = Inr (''b'', [], False)
   \<and> parseQuery (builtInKeys standardHost)
        (JObject [(''a=>'', JBool True), (''b=>'', JNumber 5)]) defaultOptions
      = Inl (InvalidQueryShape (JNumber 5))
   \<and> parseQuery (builtInKeys standardHost)
        (JObject [(''a=>'', JBool True), (''b=>'', JNumber 5)]) defaultOptions
      \<noteq> Inl MultipleEmptyTargets"
  by code_simp

subsection \<open>The parameter marker and the collection flag\<close>

lemma classify_marker: "classify bk cfg ''()'' = Marker"
  by (simp add: classify_def)

lemma classify_Marker_iff: "(classify bk cfg key = Marker) = (key = ''()'')"
  by (auto simp: classify_def split: sum.splits prod.splits)

lemma attach_expr_update:
  "attach tgt sub (st\<lparr>expr := e'\<rparr>) =
     (case attach tgt sub st of Inl err \<Rightarrow> Inl err | Inr st1 \<Rightarrow> Inr (st1\<lparr>expr := e'\<rparr>))"
  by (simp add: attach_def)

text \<open>
  The loop reads the expression only to write its parameters: started on another
  expression it makes the same steps and ends with the markers applied to that one.
\<close>

lemma parseEntries_expr_update:
  "parseEntries bk cfg kvs (st\<lparr>expr := e'\<rparr>) =
     (case parseEntries bk cfg kvs st of
        Inl err \<Rightarrow> Inl err
      | Inr st' \<Rightarrow> Inr (st'\<lparr>expr := applyMarkers kvs e'\<rparr>))"
proof (induction kvs arbitrary: st e')
  case Nil
  show ?case by simp
next
  case (Cons x kvs)
  obtain key v where x: "x = (key, v)" by (cases x)
  show ?case
  proof (cases "classify bk cfg key")
    case Marker
    then have key: "key = ''()''" by (simp add: classify_Marker_iff)
    have "parseEntries bk cfg (x # kvs) (st\<lparr>expr := e'\<rparr>)
          = parseEntries bk cfg kvs (st\<lparr>expr := setParams v e'\<rparr>)"
      by (simp add: x parseEntries_Cons Marker)
    also have "\<dots> = (case parseEntries bk cfg kvs st of
        Inl err \<Rightarrow> Inl err
      | Inr st' \<Rightarrow> Inr (st'\<lparr>expr := applyMarkers kvs (setParams v e')\<rparr>))"
      by (rule Cons.IH)
    finally have lhs: "parseEntries bk cfg (x # kvs) (st\<lparr>expr := e'\<rparr>)
       = (case parseEntries bk cfg kvs st of
        Inl err \<Rightarrow> Inl err
      | Inr st' \<Rightarrow> Inr (st'\<lparr>expr := applyMarkers kvs (setParams v e')\<rparr>))" .
    have "parseEntries bk cfg (x # kvs) st
          = parseEntries bk cfg kvs (st\<lparr>expr := setParams v (expr st)\<rparr>)"
      by (simp add: x parseEntries_Cons Marker)
    also have "\<dots> = (case parseEntries bk cfg kvs st of
        Inl err \<Rightarrow> Inl err
      | Inr st' \<Rightarrow> Inr (st'\<lparr>expr := applyMarkers kvs (setParams v (expr st))\<rparr>))"
      by (rule Cons.IH)
    finally have rhs: "parseEntries bk cfg (x # kvs) st
       = (case parseEntries bk cfg kvs st of
        Inl err \<Rightarrow> Inl err
      | Inr st' \<Rightarrow> Inr (st'\<lparr>expr := applyMarkers kvs (setParams v (expr st))\<rparr>))" .
    show ?thesis
      unfolding lhs rhs by (simp add: x key split: sum.splits)
  next
    case (BadKey err)
    then show ?thesis by (simp add: x parseEntries_Cons)
  next
    case Skipped
    then have key: "key \<noteq> ''()''" using classify_marker [of bk cfg] by auto
    from Skipped show ?thesis
      by (simp add: x parseEntries_Cons Cons.IH key split: sum.splits)
  next
    case (Accepted src tgt opt)
    then have key: "key \<noteq> ''()''" using classify_marker [of bk cfg] by auto
    from Accepted show ?thesis
      by (simp add: x parseEntries_Cons attach_expr_update Cons.IH key split: sum.splits)
  qed
qed

lemma parseEntries_markers:
  assumes "parseEntries bk cfg kvs st = Inr st'"
  shows "expr st' = applyMarkers kvs (expr st)"
proof -
  have "st\<lparr>expr := expr st\<rparr> = st" by simp
  with parseEntries_expr_update [where bk = bk and cfg = cfg and kvs = kvs and st = st
      and e' = "expr st"] assms
  have "st' = st'\<lparr>expr := applyMarkers kvs (expr st)\<rparr>" by simp
  then have "expr st' = expr (st'\<lparr>expr := applyMarkers kvs (expr st)\<rparr>)" by (rule arg_cong)
  then show ?thesis by simp
qed

lemma applyMarkers_fields:
  "sameButParams e (applyMarkers kvs e)"
proof (induction kvs arbitrary: e)
  case Nil
  show ?case by (simp add: sameButParams_def)
next
  case (Cons x kvs)
  obtain key v where x: "x = (key, v)" by (cases x)
  from Cons [of "setParams v e"] Cons [of e] show ?case
    by (simp add: x sameButParams_def setParams_def)
qed

lemma applyMarkers_params:
  "params (applyMarkers kvs e) =
     (if markerValues kvs = [] then params e else Some (last (markerValues kvs)))"
proof (induction kvs arbitrary: e)
  case Nil
  show ?case by (simp add: markerValues_def)
next
  case (Cons x kvs)
  obtain key v where x: "x = (key, v)" by (cases x)
  show ?case
    by (simp add: x Cons markerValues_def setParams_def)
qed

lemma applyMarkers_setCollection:
  "applyMarkers kvs (setCollection e) = setCollection (applyMarkers kvs e)"
proof (induction kvs arbitrary: e)
  case Nil
  show ?case by simp
next
  case (Cons x kvs)
  obtain key v where x: "x = (key, v)" by (cases x)
  have "setParams v (setCollection e) = setCollection (setParams v e)"
    by (simp add: setParams_def setCollection_def)
  then show ?case by (simp add: x Cons)
qed

lemma applyMarkers_withoutMarker: "applyMarkers (withoutMarker kvs) e = e"
  by (induction kvs arbitrary: e) (auto simp: withoutMarker_def)

lemma finishLevel_setCollection:
  "finishLevel (st\<lparr>expr := setCollection (expr st)\<rparr>) =
     (case finishLevel st of Inl err \<Rightarrow> Inl err | Inr e \<Rightarrow> Inr (setCollection e))"
  by (simp add: finishLevel_def setCollection_def setNext_def setNested_def
      split: option.splits)

lemma level_setCollection:
  "(case parseEntries bk cfg kvs (startLevel (setCollection e0)) of
      Inl err \<Rightarrow> Inl err | Inr st \<Rightarrow> finishLevel st) =
   (case (case parseEntries bk cfg kvs (startLevel e0) of
            Inl err \<Rightarrow> Inl err | Inr st \<Rightarrow> finishLevel st) of
      Inl err \<Rightarrow> Inl err | Inr e \<Rightarrow> Inr (setCollection e))"
proof -
  have start: "startLevel (setCollection e0) = (startLevel e0)\<lparr>expr := setCollection e0\<rparr>"
    by (simp add: startLevel_def)
  show ?thesis
  proof (cases "parseEntries bk cfg kvs (startLevel e0)")
    case (Inl err)
    then show ?thesis
      by (simp add: start parseEntries_expr_update)
  next
    case (Inr st')
    from parseEntries_markers [OF Inr] have "expr st' = applyMarkers kvs e0"
      by (simp add: startLevel_simps)
    then have "st'\<lparr>expr := applyMarkers kvs (setCollection e0)\<rparr>
               = st'\<lparr>expr := setCollection (expr st')\<rparr>"
      by (simp add: applyMarkers_setCollection)
    with Inr show ?thesis
      by (simp add: start parseEntries_expr_update finishLevel_setCollection)
  qed
qed

lemma parseBody_setCollection:
  "parseBody bk cfg (setCollection e0) q =
     (case parseBody bk cfg e0 q of Inl err \<Rightarrow> Inl err | Inr e \<Rightarrow> Inr (setCollection e))"
proof (cases q)
  case (JBool b)
  then show ?thesis by (cases b) simp_all
next
  case (JArray xs)
  then show ?thesis by (simp add: level_setCollection)
next
  case (JObject kvs)
  then show ?thesis by (simp add: level_setCollection)
qed simp_all

lemma level_fields:
  assumes run: "(case parseEntries bk cfg kvs (startLevel e0) of
                   Inl err \<Rightarrow> Inl err | Inr st \<Rightarrow> finishLevel st) = Inr e"
    and fresh: "nextExpression e0 = None" "nestedExpressions e0 = None"
  shows "sourceKey e = sourceKey e0 \<and> isOptional e = isOptional e0
         \<and> useCollectionElements e = useCollectionElements e0
         \<and> params e = params (applyMarkers kvs e0)"
proof -
  from run obtain st where st: "parseEntries bk cfg kvs (startLevel e0) = Inr st"
    and fin: "finishLevel st = Inr e"
    by (auto split: sum.splits)
  from parseEntries_expr [OF st] fresh
  have same: "sameButParams e0 (expr st)"
    and fresh': "nextExpression (expr st) = None" "nestedExpressions (expr st) = None"
    by (simp_all add: sameButParams_def startLevel_simps)
  from parseEntries_markers [OF st] have "expr st = applyMarkers kvs e0"
    by (simp add: startLevel_simps)
  with finishLevel_Inr [OF fin fresh'] same show ?thesis
    by (simp add: sameButParams_def)
qed

lemma parseBody_fields:
  assumes run: "parseBody bk cfg e0 q = Inr e"
    and fresh: "nextExpression e0 = None" "nestedExpressions e0 = None"
  shows "sourceKey e = sourceKey e0 \<and> isOptional e = isOptional e0
         \<and> useCollectionElements e = useCollectionElements e0"
proof (cases q)
  case (JBool b)
  with run show ?thesis by (cases b) simp_all
next
  case (JArray xs)
  with run level_fields [OF _ fresh, of bk cfg "arrayEntries xs" e] show ?thesis by simp
next
  case (JObject kvs)
  with run level_fields [OF _ fresh, of bk cfg kvs e] show ?thesis by simp
qed (use run in simp_all)

text \<open>
  Claim C4. A query that is a one-element array is unwrapped: the rest of the function
  runs on its element with \<open>useCollectionElements\<close> set on the node's expression. So a
  successful parse of a one-element array has the flag set, a successful parse of
  anything else has it unset, and for an element that is neither \<^verbatim>\<open>undefined\<close> nor
  itself an array the result is the result for the element with the flag set (the same
  error, or the same expression but for the flag). With the default options,
  \<^verbatim>\<open>parseQuery({movies: [{title: true}]})\<close> gives \<open>nestedExpressions.movies\<close> with the
  flag set and the leaf \<^verbatim>\<open>title\<close> nested inside it.
\<close>

theorem one_element_array_unwrapped:
  "parseQueryRec bk cfg (JArray [q]) (src, opt)
     = parseBody bk cfg (Expression src opt True None None None) q
   \<and> (parseQueryRec bk cfg (JArray [q]) (src, opt) = Inr e \<longrightarrow>
        useCollectionElements e \<and> sourceKey e = src \<and> isOptional e = opt)
   \<and> (q \<noteq> JUndefined \<and> (\<forall>xs. q \<noteq> JArray xs) \<longrightarrow>
        parseQueryRec bk cfg (JArray [q]) (src, opt)
          = (case parseQueryRec bk cfg q (src, opt) of
               Inl err \<Rightarrow> Inl err
             | Inr e' \<Rightarrow> Inr (setCollection e')))
   \<and> ((\<forall>xs. q \<noteq> JArray xs) \<and> parseQueryRec bk cfg q (src, opt) = Inr e \<longrightarrow>
        \<not> useCollectionElements e)
   \<and> parseQuery (builtInKeys standardHost)
        (JObject [(''movies'', JArray [JObject [(''title'', JBool True)]])]) defaultOptions
      = Inr (Expression [] False False None None
              (Some [(''movies'',
                 Expression ''movies'' False True None None
                   (Some [(''title'', Expression ''title'' False False None None None)]))]))"
proof (intro conjI impI)
  show "parseQueryRec bk cfg (JArray [q]) (src, opt)
     = parseBody bk cfg (Expression src opt True None None None) q"
    by simp
next
  assume "parseQueryRec bk cfg (JArray [q]) (src, opt) = Inr e"
  then have "parseBody bk cfg (Expression src opt True None None None) q = Inr e"
    by simp
  from parseBody_fields [OF this]
  show "useCollectionElements e" and "sourceKey e = src" and "isOptional e = opt"
    by simp_all
next
  assume q: "q \<noteq> JUndefined \<and> (\<forall>xs. q \<noteq> JArray xs)"
  have flag: "Expression src opt True None None None
              = setCollection (Expression src opt False None None None)"
    by (simp add: setCollection_def)
  from q have "parseQueryRec bk cfg q (src, opt)
               = parseBody bk cfg (Expression src opt False None None None) q"
    by (cases q) simp_all
  then show "parseQueryRec bk cfg (JArray [q]) (src, opt)
          = (case parseQueryRec bk cfg q (src, opt) of
               Inl err \<Rightarrow> Inl err
             | Inr e' \<Rightarrow> Inr (setCollection e'))"
    by (simp add: flag parseBody_setCollection del: expression.inject)
next
  assume a: "(\<forall>xs. q \<noteq> JArray xs) \<and> parseQueryRec bk cfg q (src, opt) = Inr e"
  then have "q \<noteq> JUndefined" by auto
  with a have "parseBody bk cfg (Expression src opt False None None None) q = Inr e"
    by (cases q) simp_all
  from parseBody_fields [OF this] show "\<not> useCollectionElements e" by simp
next
  show "parseQuery (builtInKeys standardHost)
        (JObject [(''movies'', JArray [JObject [(''title'', JBool True)]])]) defaultOptions
      = Inr (Expression [] False False None None
              (Some [(''movies'',
                 Expression ''movies'' False True None None
                   (Some [(''title'', Expression ''title'' False False None None None)]))]))"
    by code_simp
qed

theorem one_element_array_unwrapped_witness:
  "parseQueryRec (builtInKeys standardHost) (normalise defaultOptions)
     (JArray [JObject [(''title'', JBool True)]]) (''movies'', False)
   = Inr (Expression ''movies'' False True None None
            (Some [(''title'', Expression ''title'' False False None None None)]))
   \<and> useCollectionElements (Expression ''movies'' False True None None
            (Some [(''title'', Expression ''title'' False False None None None)]))
   \<and> JObject [(''title'', JBool True)] \<noteq> JUndefined
   \<and> (\<forall>xs. JObject [(''title'', JBool True)] \<noteq> JArray xs)
   \<and> parseQueryRec (builtInKeys standardHost) (normalise defaultOptions)
       (JObject [(''title'', JBool True)]) (''movies'', False)
     = Inr (Expression ''movies'' False False None None
            (Some [(''title'', Expression ''title'' False False None None None)]))
   \<and> parseQueryRec (builtInKeys standardHost) (normalise defaultOptions)
       (JArray [JObject [(''title'', JBool True)]]) (''movies'', False)
     = (case parseQueryRec (builtInKeys standardHost) (normalise defaultOptions)
              (JObject [(''title'', JBool True)]) (''movies'', False) of
          Inl err \<Rightarrow> Inl err
        | Inr e' \<Rightarrow> Inr (setCollection e'))
   \<and> \<not> useCollectionElements (Expression ''movies'' False False None None
            (Some [(''title'', Expression ''title'' False False None None None)]))"
proof -
  let ?bk = "builtInKeys standardHost"
  let ?cfg = "normalise defaultOptions"
  let ?q = "JObject [(''title'', JBool True)]"
  let ?eT = "Expression ''movies'' False True None None
            (Some [(''title'', Expression ''title'' False False None None None)])"
  let ?eF = "Expression ''movies'' False False None None
            (Some [(''title'', Expression ''title'' False False None None None)])"
  have r1: "parseQueryRec ?bk ?cfg (JArray [?q]) (''movies'', False) = Inr ?eT" by code_simp
  have r2: "parseQueryRec ?bk ?cfg ?q (''movies'', False) = Inr ?eF" by code_simp
  have h: "?q \<noteq> JUndefined \<and> (\<forall>xs. ?q \<noteq> JArray xs)" by simp
  from one_element_array_unwrapped [of ?bk ?cfg ?q "''movies''" False ?eT] r1
  have a: "useCollectionElements ?eT" by blast
  from one_element_array_unwrapped [of ?bk ?cfg ?q "''movies''" False ?eT] h
  have b: "parseQueryRec ?bk ?cfg (JArray [?q]) (''movies'', False)
     = (case parseQueryRec ?bk ?cfg ?q (''movies'', False) of
          Inl err \<Rightarrow> Inl err
        | Inr e' \<Rightarrow> Inr (setCollection e'))" by blast
  from one_element_array_unwrapped [of ?bk ?cfg ?q "''movies''" False ?eF] h r2
  have c: "\<not> useCollectionElements ?eF" by blast
  from r1 r2 h a b c show ?thesis by blast
qed

lemma withoutMarker_Cons:
  "withoutMarker ((key, v) # kvs) =
     (if key = ''()'' then withoutMarker kvs else (key, v) # withoutMarker kvs)"
  by (simp add: withoutMarker_def)

text \<open>Without the markers the loop makes the same steps and leaves the expression alone.\<close>

lemma parseEntries_withoutMarker:
  "parseEntries bk cfg (withoutMarker kvs) st =
     (case parseEntries bk cfg kvs st of
        Inl err \<Rightarrow> Inl err
      | Inr st' \<Rightarrow> Inr (st'\<lparr>expr := expr st\<rparr>))"
proof (induction kvs arbitrary: st)
  case Nil
  show ?case by (simp add: withoutMarker_def)
next
  case (Cons x kvs)
  obtain key v where x: "x = (key, v)" by (cases x)
  show ?case
  proof (cases "key = ''()''")
    case True
    then have cl: "classify bk cfg key = Marker" by (simp add: classify_marker)
    have "parseEntries bk cfg (x # kvs) st
          = parseEntries bk cfg kvs (st\<lparr>expr := setParams v (expr st)\<rparr>)"
      by (simp add: x parseEntries_Cons cl)
    also have "\<dots> = (case parseEntries bk cfg kvs st of
        Inl err \<Rightarrow> Inl err
      | Inr st' \<Rightarrow> Inr (st'\<lparr>expr := applyMarkers kvs (setParams v (expr st))\<rparr>))"
      by (rule parseEntries_expr_update)
    finally have rhs: "parseEntries bk cfg (x # kvs) st
      = (case parseEntries bk cfg kvs st of
        Inl err \<Rightarrow> Inl err
      | Inr st' \<Rightarrow> Inr (st'\<lparr>expr := applyMarkers kvs (setParams v (expr st))\<rparr>))" .
    from True have "withoutMarker (x # kvs) = withoutMarker kvs"
      by (simp add: x withoutMarker_Cons)
    then show ?thesis
      unfolding rhs by (simp add: Cons.IH split: sum.splits)
  next
    case False
    then have wm: "withoutMarker ((key, v) # kvs) = (key, v) # withoutMarker kvs"
      by (simp add: withoutMarker_Cons)
    from False have nm: "classify bk cfg key \<noteq> Marker" by (simp add: classify_Marker_iff)
    show ?thesis
    proof (cases "classify bk cfg key")
      case Marker
      with nm show ?thesis by simp
    next
      case (BadKey err)
      then show ?thesis by (simp add: wm x parseEntries_Cons)
    next
      case Skipped
      then show ?thesis by (simp add: wm x parseEntries_Cons Cons.IH)
    next
      case (Accepted src tgt opt)
      show ?thesis
      proof (cases "parseQueryRec bk cfg v (src, opt)")
        case (Inl err)
        with Accepted show ?thesis by (simp add: wm x parseEntries_Cons)
      next
        case (Inr sub)
        show ?thesis
        proof (cases "attach tgt sub st")
          case (Inl err)
          with Accepted \<open>parseQueryRec bk cfg v (src, opt) = Inr sub\<close> show ?thesis
            by (simp add: wm x parseEntries_Cons)
        next
          case st1: (Inr st1)
          from attach_expr [OF st1] have "expr st1 = expr st" .
          with Accepted \<open>parseQueryRec bk cfg v (src, opt) = Inr sub\<close> st1 show ?thesis
            by (simp add: wm x parseEntries_Cons Cons.IH split: sum.splits)
        qed
      qed
    qed
  qed
qed

lemma finishLevel_dropParams:
  "finishLevel (st\<lparr>expr := dropParams (expr st)\<rparr>) =
     (case finishLevel st of Inl err \<Rightarrow> Inl err | Inr e \<Rightarrow> Inr (dropParams e))"
  by (simp add: finishLevel_def dropParams_def setNext_def setNested_def
      split: option.splits)

lemma dropParams_applyMarkers:
  "params e0 = None \<Longrightarrow> dropParams (applyMarkers kvs e0) = e0"
  using applyMarkers_fields [of e0 kvs]
  by (cases e0) (simp add: dropParams_def sameButParams_def)

lemma level_withoutMarker:
  assumes "params e0 = None"
  shows "(case parseEntries bk cfg (withoutMarker kvs) (startLevel e0) of
            Inl err \<Rightarrow> Inl err | Inr st \<Rightarrow> finishLevel st) =
         (case (case parseEntries bk cfg kvs (startLevel e0) of
                  Inl err \<Rightarrow> Inl err | Inr st \<Rightarrow> finishLevel st) of
            Inl err \<Rightarrow> Inl err | Inr e \<Rightarrow> Inr (dropParams e))"
proof (cases "parseEntries bk cfg kvs (startLevel e0)")
  case (Inl err)
  then show ?thesis by (simp add: parseEntries_withoutMarker)
next
  case (Inr st')
  from parseEntries_markers [OF Inr] have "expr st' = applyMarkers kvs e0"
    by (simp add: startLevel_simps)
  with assms have "st'\<lparr>expr := e0\<rparr> = st'\<lparr>expr := dropParams (expr st')\<rparr>"
    by (simp add: dropParams_applyMarkers)
  with Inr show ?thesis
    by (simp add: parseEntries_withoutMarker startLevel_simps finishLevel_dropParams)
qed

lemma distinct_marker_value:
  "distinct (map fst kvs) \<Longrightarrow> (k, v) \<in> set kvs \<Longrightarrow>
   map snd (filter (\<lambda>p. fst p = k) kvs) = [v]"
proof (induction kvs)
  case Nil
  then show ?case by simp
next
  case (Cons p kvs)
  show ?case
  proof (cases "fst p = k")
    case True
    have none: "fst q \<noteq> k" if "q \<in> set kvs" for q
    proof
      assume "fst q = k"
      with that True have "fst p \<in> fst ` set kvs" by (metis imageI)
      moreover from Cons.prems(1) have "fst p \<notin> fst ` set kvs" by simp
      ultimately show False by blast
    qed
    then have f: "filter (\<lambda>p. fst p = k) kvs = []"
      by (simp add: filter_empty_conv)
    from none [of "(k, v)"] Cons.prems(2) have "p = (k, v)" by auto
    with f show ?thesis by simp
  next
    case False
    with Cons show ?thesis by auto
  qed
qed

text \<open>
  Claim C5. The entry with the key \<^verbatim>\<open>()\<close> is never parsed as a sub-query: the loop
  stores its value, as it is, in \<open>params\<close> of the expression under construction and goes
  on. A successfully parsed level has as \<open>params\<close> the value of its marker entry (of the
  last one, should a list of entries contain several; the keys of an object are distinct),
  and none without a marker. Removing the marker entries from a level changes nothing in
  the outcome but the \<open>params\<close> of the level's expression: the same error, or the same
  children. With the default options,
  \<^verbatim>\<open>parseQuery({"movies=>actionMovies": {"()": {genre: "action"}}})\<close> gives, under the
  target key \<^verbatim>\<open>actionMovies\<close>, a child with \<open>sourceKey\<close> \<^verbatim>\<open>movies\<close> and \<open>params\<close>
  \<^verbatim>\<open>{genre: "action"}\<close>.
\<close>

theorem parameter_marker:
  "parseEntries bk cfg ((''()'', v) # rest) st
     = parseEntries bk cfg rest (st\<lparr>expr := setParams v (expr st)\<rparr>)
   \<and> classify bk cfg ''()'' = Marker
   \<and> (parseQueryRec bk cfg (JObject kvs) ctx = Inr e \<longrightarrow>
        params e = (if markerValues kvs = [] then None else Some (last (markerValues kvs))))
   \<and> (parseQueryRec bk cfg (JObject kvs) ctx = Inr e \<and> distinct (map fst kvs)
        \<and> (''()'', v) \<in> set kvs \<longrightarrow> params e = Some v)
   \<and> parseQueryRec bk cfg (JObject (withoutMarker kvs)) ctx
       = (case parseQueryRec bk cfg (JObject kvs) ctx of
            Inl err \<Rightarrow> Inl err
          | Inr e' \<Rightarrow> Inr (dropParams e'))
   \<and> parseQuery (builtInKeys standardHost)
        (JObject [(''movies=>actionMovies'',
                   JObject [(''()'', JObject [(''genre'', JString ''action'')])])])
        defaultOptions
      = Inr (Expression [] False False None None
              (Some [(''actionMovies'',
                 Expression ''movies'' False False
                   (Some (JObject [(''genre'', JString ''action'')])) None None)]))"
proof -
  obtain s0 o0 where ctx: "ctx = (s0, o0)" by (cases ctx)
  let ?e0 = "Expression s0 o0 False None None None"
  have step: "parseEntries bk cfg ((''()'', v) # rest) st
     = parseEntries bk cfg rest (st\<lparr>expr := setParams v (expr st)\<rparr>)"
    by (simp add: parseEntries_Cons classify_marker)
  have par: "params e = (if markerValues kvs = [] then None else Some (last (markerValues kvs)))"
    if run: "parseQueryRec bk cfg (JObject kvs) ctx = Inr e"
  proof -
    from run have "(case parseEntries bk cfg kvs (startLevel ?e0) of
                   Inl err \<Rightarrow> Inl err | Inr st \<Rightarrow> finishLevel st) = Inr e"
      by (simp add: ctx)
    from level_fields [OF this] show ?thesis
      by (simp add: applyMarkers_params)
  qed
  have one: "params e = Some v"
    if "parseQueryRec bk cfg (JObject kvs) ctx = Inr e \<and> distinct (map fst kvs)
        \<and> (''()'', v) \<in> set kvs"
  proof -
    from that distinct_marker_value [of kvs "''()''" v] have "markerValues kvs = [v]"
      by (simp add: markerValues_def)
    with par that show ?thesis by simp
  qed
  have rem: "parseQueryRec bk cfg (JObject (withoutMarker kvs)) ctx
       = (case parseQueryRec bk cfg (JObject kvs) ctx of
            Inl err \<Rightarrow> Inl err
          | Inr e' \<Rightarrow> Inr (dropParams e'))"
    using level_withoutMarker [of ?e0 bk cfg kvs] by (simp add: ctx)
  have ex: "parseQuery (builtInKeys standardHost)
        (JObject [(''movies=>actionMovies'',
                   JObject [(''()'', JObject [(''genre'', JString ''action'')])])])
        defaultOptions
      = Inr (Expression [] False False None None
              (Some [(''actionMovies'',
                 Expression ''movies'' False False
                   (Some (JObject [(''genre'', JString ''action'')])) None None)]))"
    by code_simp
  from step classify_marker [of bk cfg] par one rem ex show ?thesis by blast
qed

theorem parameter_marker_witness:
  "parseQueryRec (builtInKeys standardHost) (normalise defaultOptions)
     (JObject [(''()'', JObject [(''genre'', JString ''action'')]), (''title'', JBool True)])
     (''movies'', False)
   = Inr (Expression ''movies'' False False (Some (JObject [(''genre'', JString ''action'')]))
            None (Some [(''title'', Expression ''title'' False False None None None)]))
   \<and> distinct (map fst [(''()'', JObject [(''genre'', JString ''action'')]),
                          (''title'', JBool True)])
   \<and> (''()'', JObject [(''genre'', JString ''action'')])
       \<in> set [(''()'', JObject [(''genre'', JString ''action'')]), (''title'', JBool True)]
   \<and> params (Expression ''movies'' False False (Some (JObject [(''genre'', JString ''action'')]))
            None (Some [(''title'', Expression ''title'' False False None None None)]))
       = Some (JObject [(''genre'', JString ''action'')])
   \<and> parseQueryRec (builtInKeys standardHost) (normalise defaultOptions)
       (JObject (withoutMarker
          [(''()'', JObject [(''genre'', JString ''action'')]), (''title'', JBool True)]))
       (''movies'', False)
     = Inr (Expression ''movies'' False False None
            None (Some [(''title'', Expression ''title'' False False None None None)]))"
proof -
  let ?bk = "builtInKeys standardHost"
  let ?cfg = "normalise defaultOptions"
  let ?v = "JObject [(''genre'', JString ''action'')]"
  let ?kvs = "[(''()'', ?v), (''title'', JBool True)]"
  let ?e = "Expression ''movies'' False False (Some ?v)
            None (Some [(''title'', Expression ''title'' False False None None None)])"
  have run: "parseQueryRec ?bk ?cfg (JObject ?kvs) (''movies'', False) = Inr ?e" by code_simp
  have d: "distinct (map fst ?kvs)" by simp
  have m: "(''()'', ?v) \<in> set ?kvs" by simp
  note inst = parameter_marker [of ?bk ?cfg ?v "[]" "startLevel ?e" ?kvs "(''movies'', False)" ?e]
  from inst run d m have p: "params ?e = Some ?v" by blast
  from inst have "parseQueryRec ?bk ?cfg (JObject (withoutMarker ?kvs)) (''movies'', False)
       = (case parseQueryRec ?bk ?cfg (JObject ?kvs) (''movies'', False) of
            Inl err \<Rightarrow> Inl err
          | Inr e' \<Rightarrow> Inr (dropParams e'))" by blast
  with run have w: "parseQueryRec ?bk ?cfg (JObject (withoutMarker ?kvs)) (''movies'', False)
     = Inr (Expression ''movies'' False False None
            None (Some [(''title'', Expression ''title'' False False None None None)]))"
    by (simp add: dropParams_def)
  from run d m p w show ?thesis by blast
qed

subsection \<open>Arrays and values of other shapes\<close>

lemma invalid_shapes_rejected:
  "q \<in> {JNull, JBool False, JNumber n, JString s} \<Longrightarrow>
   parseQueryRec bk cfg q ctx = Inl (InvalidQueryShape q)
   \<and> parseQueryRec bk cfg (JArray [q]) ctx = Inl (InvalidQueryShape q)"
  by (cases ctx) auto

lemma undefined_rejected:
  "parseQueryRec bk cfg JUndefined ctx = Inl MissingQuery
   \<and> parseQueryRec bk cfg (JArray [JUndefined]) ctx = Inl (InvalidQueryShape JUndefined)
   \<and> parseQuery bk JUndefined opts = Inl MissingQuery"
  by (cases ctx) (simp add: parseQuery_def)

lemma wrong_length_array_rejected:
  "length xs \<noteq> 1 \<Longrightarrow> parseQueryRec bk cfg (JArray xs) ctx = Inl InvalidArraySyntax"
  by (cases ctx; cases xs) (auto split: list.splits)

lemma wrong_length_array_entry_rejected:
  "length xs \<noteq> 1 \<Longrightarrow> classify bk cfg key = Accepted src tgt opt \<Longrightarrow>
   parseEntries bk cfg ((key, JArray xs) # rest) st = Inl InvalidArraySyntax"
  using wrong_length_array_rejected [of xs bk cfg "(src, opt)"]
  by (simp add: parseEntries_Cons del: parseQueryRec.simps)

text \<open>
  Claim C6. The claim wants every value that, after the unwrapping of a one-element
  array, is neither \<^verbatim>\<open>true\<close> nor a mapping to be rejected with \<open>InvalidQueryShape\<close>,
  an array in the place of the unwrapped body included. The test of the source is
  \<^verbatim>\<open>typeof query !== 'object' || query === null\<close>, which an array passes: the array
  inside a one-element array is iterated as a mapping from its indices, and the parse
  succeeds. \<^verbatim>\<open>parseQuery([[true]])\<close> returns an expression with a nested entry
  \<^verbatim>\<open>0\<close>; so does the value of \<^verbatim>\<open>movies\<close> in \<^verbatim>\<open>{movies: [[{title: true}]]}\<close>.
\<close>

theorem nested_array_parsed_as_mapping:
  "parseQuery (builtInKeys standardHost) (JArray [JArray [JBool True]]) defaultOptions
     = Inr (Expression [] False True None None
              (Some [(''0'', Expression ''0'' False False None None None)]))
   \<and> parseQuery (builtInKeys standardHost)
       (JObject [(''movies'', JArray [JArray [JObject [(''title'', JBool True)]]])])
       defaultOptions
     = Inr (Expression [] False False None None
         (Some [(''movies'', Expression ''movies'' False True None None
            (Some [(''0'', Expression ''0'' False False None None
               (Some [(''title'', Expression ''title'' False False None None None)]))]))]))"
  by code_simp

text \<open>
  Claim C7. The claim wants every array of a length other than one to be rejected with
  \<open>InvalidArraySyntax\<close>, the one-element array being the only accepted array form. The
  length is tested only where \<^verbatim>\<open>_parseQuery\<close> is entered with an array; the element
  of a one-element array is not tested again, and being an object for \<^verbatim>\<open>typeof\<close> it is
  iterated as a mapping. \<^verbatim>\<open>parseQuery([[]])\<close> succeeds for every configuration, and
  \<^verbatim>\<open>parseQuery([[true, true]])\<close> succeeds with the nested entries \<^verbatim>\<open>0\<close> and \<^verbatim>\<open>1\<close>.
\<close>

theorem inner_array_length_unchecked:
  "parseQuery bk (JArray [JArray []]) opts = Inr (Expression [] False True None None None)
   \<and> parseQuery (builtInKeys standardHost) (JArray [JArray [JBool True, JBool True]])
        defaultOptions
     = Inr (Expression [] False True None None
              (Some [(''0'', Expression ''0'' False False None None None),
                     (''1'', Expression ''1'' False False None None None)]))"
proof
  show "parseQuery bk (JArray [JArray []]) opts = Inr (Expression [] False True None None None)"
    by (simp add: parseQuery_def arrayEntries_def startLevel_def finishLevel_def)
  show "parseQuery (builtInKeys standardHost) (JArray [JArray [JBool True, JBool True]])
        defaultOptions
     = Inr (Expression [] False True None None
              (Some [(''0'', Expression ''0'' False False None None None),
                     (''1'', Expression ''1'' False False None None None)]))"
    by code_simp
qed

subsection \<open>The filters\<close>


lemma classify_builtIn:
  "key \<noteq> ''()'' \<Longrightarrow> parseKey key = Inr (src, tgt, opt) \<Longrightarrow> builtInFiltered bk cfg src \<Longrightarrow>
   classify bk cfg key = Skipped"
  by (simp add: classify_def)

lemma classify_accepted:
  "key \<noteq> ''()'' \<Longrightarrow> parseKey key = Inr (src, tgt, opt) \<Longrightarrow> \<not> builtInFiltered bk cfg src \<Longrightarrow>
   \<not> ignored cfg src \<Longrightarrow> classify bk cfg key = Accepted src tgt opt"
  by (simp add: classify_def)

















subsection \<open>The built-in keys\<close>

lemma set_addOwn: "set (addOwn array keys) = set array \<union> (set keys - {''name'', ''length''})"
  by (induction keys arbitrary: array) auto

lemma set_addKeys:
  "set (addKeys array chain) = set array \<union> (\<Union> (set ` set chain) - {''name'', ''length''})"
  by (induction chain arbitrary: array) (auto simp: set_addOwn)

lemma distinct_addOwn: "distinct array \<Longrightarrow> distinct (addOwn array keys)"
  by (induction keys arbitrary: array) auto

lemma distinct_addKeys: "distinct array \<Longrightarrow> distinct (addKeys array chain)"
  by (induction chain arbitrary: array) (auto simp: distinct_addOwn)

lemma set_builtInKeys:
  "set (builtInKeys h) =
     \<Union> (set ` (set (objChain h) \<union> set (funcChain h) \<union> set (classChain h)))
     - {''name'', ''length''}"
  by (auto simp: builtInKeys_def getBuiltInKeys_def Let_def set_addKeys)

lemma distinct_builtInKeys: "distinct (builtInKeys h)"
  by (simp add: builtInKeys_def getBuiltInKeys_def Let_def distinct_addKeys)

lemma getBuiltInKeys_memo:
  "fst (getBuiltInKeys h' (snd (getBuiltInKeys h None))) = builtInKeys h"
  by (simp add: builtInKeys_def getBuiltInKeys_def Let_def)

text \<open>
  Claim C10. Whatever the host's objects expose, the denylist contains neither
  \<^verbatim>\<open>name\<close> nor \<^verbatim>\<open>length\<close>, so the filter of built-in keys never skips an entry with
  one of these as source key; it contains every other own property name found along the
  three prototype chains, and with \<open>ignoreBuiltInKeys\<close> set (the default) an entry whose
  source key is one of those is skipped. The list is computed once: a later call returns
  the cached list. With the standard library's names, \<^verbatim>\<open>constructor\<close>,
  \<^verbatim>\<open>toString\<close> and \<^verbatim>\<open>hasOwnProperty\<close> are in the list, and a query with these three
  keys and the keys \<^verbatim>\<open>name\<close> and \<^verbatim>\<open>length\<close> keeps the last two only.
\<close>

theorem built_in_keys_filter:
  "''name'' \<notin> set (builtInKeys h) \<and> ''length'' \<notin> set (builtInKeys h)
   \<and> set (builtInKeys h) =
       \<Union> (set ` (set (objChain h) \<union> set (funcChain h) \<union> set (classChain h)))
       - {''name'', ''length''}
   \<and> (src = ''name'' \<or> src = ''length'' \<longrightarrow> \<not> builtInFiltered (builtInKeys h) cfg src)
   \<and> (key \<noteq> ''()'' \<and> parseKey key = Inr (src, tgt, opt) \<and> ignoreBuiltInKeys cfg
       \<and> names \<in> set (objChain h) \<union> set (funcChain h) \<union> set (classChain h)
       \<and> src \<in> set names \<and> src \<noteq> ''name'' \<and> src \<noteq> ''length'' \<longrightarrow>
         builtInFiltered (builtInKeys h) cfg src
         \<and> parseEntries (builtInKeys h) cfg ((key, v) # rest) st
             = parseEntries (builtInKeys h) cfg rest st)
   \<and> ignoreBuiltInKeys (normalise defaultOptions)
   \<and> fst (getBuiltInKeys h' (snd (getBuiltInKeys h None))) = builtInKeys h
   \<and> {''constructor'', ''toString'', ''hasOwnProperty''} \<subseteq> set (builtInKeys standardHost)
   \<and> parseQuery (builtInKeys standardHost)
        (JObject [(''constructor'', JBool True), (''name'', JBool True),
                  (''toString'', JNumber 1), (''length'', JBool True),
                  (''hasOwnProperty'', JNull)]) defaultOptions
      = Inr (Expression [] False False None None
               (Some [(''name'', Expression ''name'' False False None None None),
                      (''length'', Expression ''length'' False False None None None)]))"
proof -
  have nl: "''name'' \<notin> set (builtInKeys h) \<and> ''length'' \<notin> set (builtInKeys h)"
    by (simp add: set_builtInKeys)
  then have keep: "\<not> builtInFiltered (builtInKeys h) cfg src"
    if "src = ''name'' \<or> src = ''length''"
    using that by (auto simp: builtInFiltered_def)
  have skip: "builtInFiltered (builtInKeys h) cfg src
         \<and> parseEntries (builtInKeys h) cfg ((key, v) # rest) st
             = parseEntries (builtInKeys h) cfg rest st"
    if a: "key \<noteq> ''()'' \<and> parseKey key = Inr (src, tgt, opt) \<and> ignoreBuiltInKeys cfg
       \<and> names \<in> set (objChain h) \<union> set (funcChain h) \<union> set (classChain h)
       \<and> src \<in> set names \<and> src \<noteq> ''name'' \<and> src \<noteq> ''length''"
  proof -
    from a have "src \<in> set (builtInKeys h)"
      unfolding set_builtInKeys by blast
    with a have f: "builtInFiltered (builtInKeys h) cfg src"
      by (simp add: builtInFiltered_def)
    with a have "classify (builtInKeys h) cfg key = Skipped"
      by (simp add: classify_builtIn)
    with f show ?thesis by (simp add: parseEntries_Cons)
  qed
  have dflt: "ignoreBuiltInKeys (normalise defaultOptions)"
    by (simp add: normalise_def defaultOptions_def)
  have std: "{''constructor'', ''toString'', ''hasOwnProperty''} \<subseteq> set (builtInKeys standardHost)"
    by code_simp
  have ex: "parseQuery (builtInKeys standardHost)
        (JObject [(''constructor'', JBool True), (''name'', JBool True),
                  (''toString'', JNumber 1), (''length'', JBool True),
                  (''hasOwnProperty'', JNull)]) defaultOptions
      = Inr (Expression [] False False None None
               (Some [(''name'', Expression ''name'' False False None None None),
                      (''length'', Expression ''length'' False False None None None)]))"
    by code_simp
  from nl set_builtInKeys [of h] keep skip dflt getBuiltInKeys_memo [of h' h] std ex
  show ?thesis by blast
qed

theorem built_in_keys_filter_witness:
  "\<not> builtInFiltered (builtInKeys standardHost) (normalise defaultOptions) ''name''
   \<and> \<not> builtInFiltered (builtInKeys standardHost) (normalise defaultOptions) ''length''
   \<and> ''valueOf?=>v'' \<noteq> ''()'' \<and> parseKey ''valueOf?=>v'' = Inr (''valueOf'', ''v'', True)
   \<and> ignoreBuiltInKeys (normalise defaultOptions)
   \<and> objectPrototypeNames \<in> set (objChain standardHost) \<union> set (funcChain standardHost)
        \<union> set (classChain standardHost)
   \<and> ''valueOf'' \<in> set objectPrototypeNames
   \<and> builtInFiltered (builtInKeys standardHost) (normalise defaultOptions) ''valueOf''
   \<and> parseEntries (builtInKeys standardHost) (normalise defaultOptions)
        ((''valueOf?=>v'', JNumber 0) # [(''title'', JBool True)])
        (startLevel (Expression [] False False None None None))
      = parseEntries (builtInKeys standardHost) (normalise defaultOptions)
        [(''title'', JBool True)] (startLevel (Expression [] False False None None None))"
proof -
  let ?bk = "builtInKeys standardHost"
  let ?cfg = "normalise defaultOptions"
  let ?st = "startLevel (Expression [] False False None None None)"
  have h: "''valueOf?=>v'' \<noteq> ''()'' \<and> parseKey ''valueOf?=>v'' = Inr (''valueOf'', ''v'', True)
     \<and> ignoreBuiltInKeys ?cfg
     \<and> objectPrototypeNames \<in> set (objChain standardHost) \<union> set (funcChain standardHost)
        \<union> set (classChain standardHost)
     \<and> ''valueOf'' \<in> set objectPrototypeNames
     \<and> ''valueOf'' \<noteq> ''name'' \<and> ''valueOf'' \<noteq> ''length''"
    by code_simp
  have "''name'' = ''name'' \<or> ''name'' = ''length''
          \<longrightarrow> \<not> builtInFiltered ?bk ?cfg ''name''"
    by (rule built_in_keys_filter [of standardHost "''name''" ?cfg,
          THEN conjunct2, THEN conjunct2, THEN conjunct2, THEN conjunct1])
  then have a: "\<not> builtInFiltered ?bk ?cfg ''name''" by simp
  have "''length'' = ''name'' \<or> ''length'' = ''length''
          \<longrightarrow> \<not> builtInFiltered ?bk ?cfg ''length''"
    by (rule built_in_keys_filter [of standardHost "''length''" ?cfg,
          THEN conjunct2, THEN conjunct2, THEN conjunct2, THEN conjunct1])
  then have b: "\<not> builtInFiltered ?bk ?cfg ''length''" by simp
  have "''valueOf?=>v'' \<noteq> ''()'' \<and> parseKey ''valueOf?=>v'' = Inr (''valueOf'', ''v'', True)
     \<and> ignoreBuiltInKeys ?cfg
     \<and> objectPrototypeNames \<in> set (objChain standardHost) \<union> set (funcChain standardHost)
        \<union> set (classChain standardHost)
     \<and> ''valueOf'' \<in> set objectPrototypeNames
     \<and> ''valueOf'' \<noteq> ''name'' \<and> ''valueOf'' \<noteq> ''length''
     \<longrightarrow> builtInFiltered ?bk ?cfg ''valueOf''
     \<and> parseEntries ?bk ?cfg ((''valueOf?=>v'', JNumber 0) # [(''title'', JBool True)]) ?st
      = parseEntries ?bk ?cfg [(''title'', JBool True)] ?st"
    by (rule built_in_keys_filter [of standardHost "''valueOf''" ?cfg "''valueOf?=>v''" "''v''" True
      objectPrototypeNames "JNumber 0" "[(''title'', JBool True)]" ?st,
          THEN conjunct2, THEN conjunct2, THEN conjunct2, THEN conjunct2, THEN conjunct1])
  from this h
  have c: "builtInFiltered ?bk ?cfg ''valueOf''
     \<and> parseEntries ?bk ?cfg ((''valueOf?=>v'', JNumber 0) # [(''title'', JBool True)]) ?st
      = parseEntries ?bk ?cfg [(''title'', JBool True)] ?st"
    by (rule mp)
  from a b c h show ?thesis by simp
qed

end
